theory Spec2Isabelle
  imports Complex_Main "HOL-Library.Multiset"
begin

section \<open>JavaScript values\<close>

text \<open>
  The dashboard component (\<^verbatim>\<open>client/src/components/Dashboard.js\<close>) works on the JSON
  bodies of three HTTP responses. A JavaScript number is a double: it is \<open>NaN\<close>, one of
  the two infinities, or finite. A finite double is modelled by its exact value (the two
  zeros are one value: both are falsy and compare equal).

  A value is what \<^verbatim>\<open>JSON.parse\<close> can return, or \<^verbatim>\<open>undefined\<close>. An object is the list
  of its properties; where a list repeats a key, the first occurrence is the property.
\<close>

datatype jsnum = NaN | Infinity | NegInfinity | Finite real

datatype jsval =
    JUndefined
  | JNull
  | JBool bool
  | JNum jsnum
  | JStr string
  | JArr "jsval list"
  | JObj "(string \<times> jsval) list"

datatype js_error = TypeError

definition is_nullish :: "jsval \<Rightarrow> bool" where
  "is_nullish v = (case v of JUndefined \<Rightarrow> True | JNull \<Rightarrow> True | _ \<Rightarrow> False)"

text \<open>
  \<open>get_prop v k\<close> is the value of \<^verbatim>\<open>v.k\<close> on a value that is neither \<^verbatim>\<open>null\<close> nor
  \<^verbatim>\<open>undefined\<close>, for the data keys the component reads (\<^verbatim>\<open>data\<close>, \<^verbatim>\<open>date\<close>,
  \<^verbatim>\<open>duration\<close>, \<^verbatim>\<open>hours\<close>, \<^verbatim>\<open>range\<close>, \<^verbatim>\<open>min\<close>, \<^verbatim>\<open>max\<close>, \<^verbatim>\<open>forecast\<close>,
  \<^verbatim>\<open>confidence\<close>): none of them is a property of a prototype, so a missing key and
  every primitive give \<^verbatim>\<open>undefined\<close>.
\<close>

fun get_prop :: "jsval \<Rightarrow> string \<Rightarrow> jsval" where
  "get_prop (JObj kvs) k = (case map_of kvs k of Some v \<Rightarrow> v | None \<Rightarrow> JUndefined)"
| "get_prop v k = JUndefined"

text \<open>\<^verbatim>\<open>v.k\<close> throws a TypeError on \<^verbatim>\<open>null\<close> and \<^verbatim>\<open>undefined\<close>.\<close>

definition dot :: "jsval \<Rightarrow> string \<Rightarrow> js_error + jsval" where
  "dot v k = (if is_nullish v then Inl TypeError else Inr (get_prop v k))"

text \<open>\<^verbatim>\<open>v?.k\<close>\<close>

definition opt_prop :: "jsval \<Rightarrow> string \<Rightarrow> jsval" where
  "opt_prop v k = (if is_nullish v then JUndefined else get_prop v k)"

text \<open>\<^verbatim>\<open>v ?? d\<close>\<close>

definition nullish_or :: "jsval \<Rightarrow> jsval \<Rightarrow> jsval" where
  "nullish_or v d = (if is_nullish v then d else v)"

text \<open>
  \<^verbatim>\<open>Number(v)\<close>. The conversion of a string (StringToNumber) and of an array or object
  (ToPrimitive, then StringToNumber) is the parameter \<open>S\<close>; the other cases are fixed by
  the language. \<open>S\<close> is total: the one way for the conversion to throw on JSON data, an
  object whose own \<^verbatim>\<open>toString\<close> property hides the method, is left out.
\<close>

fun Number :: "(jsval \<Rightarrow> jsnum) \<Rightarrow> jsval \<Rightarrow> jsnum" where
  "Number S JUndefined = NaN"
| "Number S JNull = Finite 0"
| "Number S (JBool b) = Finite (if b then 1 else 0)"
| "Number S (JNum n) = n"
| "Number S v = S v"

text \<open>A number is falsy when it is \<open>NaN\<close> or zero; \<^verbatim>\<open>a || b\<close> on numbers.\<close>

fun truthy_num :: "jsnum \<Rightarrow> bool" where
  "truthy_num NaN = False"
| "truthy_num (Finite r) = (r \<noteq> 0)"
| "truthy_num n = True"

definition or_num :: "jsnum \<Rightarrow> jsnum \<Rightarrow> jsnum" where
  "or_num a b = (if truthy_num a then a else b)"

fun is_finite :: "jsnum \<Rightarrow> bool" where
  "is_finite (Finite r) = True"
| "is_finite n = False"

fun infinite_num :: "jsnum \<Rightarrow> bool" where
  "infinite_num Infinity = True"
| "infinite_num NegInfinity = True"
| "infinite_num n = False"

section \<open>Dates and sorting\<close>

text \<open>
  \<open>D v\<close> stands for the time value of \<^verbatim>\<open>new Date(v)\<close> in milliseconds, \<open>None\<close> for
  an invalid date (its time value is \<open>NaN\<close>). How a string parses depends on the engine, so
  \<open>D\<close> is a parameter of every function that builds a date. It is total, as \<open>S\<close> is.

  The comparator \<^verbatim>\<open>(a, b) => new Date(a.date) - new Date(b.date)\<close> subtracts two time
  values; the difference is \<open>NaN\<close> as soon as one of them is. Only its sign is used, and
  the sign of the rounded double difference is the sign of the exact one.
\<close>

definition date_diff :: "int option \<Rightarrow> int option \<Rightarrow> int option" where
  "date_diff a b =
     (case a of None \<Rightarrow> None
      | Some s \<Rightarrow> (case b of None \<Rightarrow> None | Some t \<Rightarrow> Some (s - t)))"

text \<open>
  \<^verbatim>\<open>Array.prototype.sort(cmp)\<close>. The language asks for a stable sort and fixes the
  result when the comparator is a consistent ordering; when it is not (some date is
  invalid) the order is what the engine's algorithm makes of the comparator's answers.
  The model is the algorithm of V8 (Chrome, Node.js) for an array of fewer than 64
  elements: \<^verbatim>\<open>CountAndMakeRun\<close> takes the longest run at the start of the array,
  ascending or strictly descending, and reverses a descending one; then
  \<^verbatim>\<open>BinaryInsertionSort\<close> inserts each element that follows into the sorted part, at
  the place a binary search finds. Only the test \<open>cmp(a, b) < 0\<close> is used, and a \<open>NaN\<close>
  result counts as \<open>0\<close>. On longer arrays V8 merges several such runs: the result is the
  same for a consistent comparator, and may differ from the model otherwise.
\<close>

definition negative :: "int option \<Rightarrow> bool" where
  "negative v = (case v of None \<Rightarrow> False | Some n \<Rightarrow> n < 0)"

text \<open>
  The number of elements after \<open>prev\<close> that continue the run: the loop of
  \<^verbatim>\<open>CountAndMakeRun\<close> goes on while \<open>cmp(current, previous) < 0\<close> in a descending run,
  and while it is not in an ascending one.
\<close>

fun run_length :: "('a \<Rightarrow> 'a \<Rightarrow> int option) \<Rightarrow> bool \<Rightarrow> 'a \<Rightarrow> 'a list \<Rightarrow> nat" where
  "run_length cmp desc prev [] = 0"
| "run_length cmp desc prev (x # xs) =
     (if negative (cmp x prev) = desc then Suc (run_length cmp desc x xs) else 0)"

text \<open>The run, made ascending, and the elements after it.\<close>

definition CountAndMakeRun :: "('a \<Rightarrow> 'a \<Rightarrow> int option) \<Rightarrow> 'a list \<Rightarrow> 'a list \<times> 'a list" where
  "CountAndMakeRun cmp xs =
     (case xs of
        a # b # rest \<Rightarrow>
          (let desc = negative (cmp b a);
               n = Suc (Suc (run_length cmp desc b rest))
           in (if desc then rev (take n xs) else take n xs, drop n xs))
      | _ \<Rightarrow> (xs, []))"

text \<open>
  The search of \<^verbatim>\<open>BinaryInsertionSort\<close>:
  \<^verbatim>\<open>while (left < right) { mid = left + ((right - left) >> 1);
     if (cmp(pivot, arr[mid]) < 0) right = mid; else left = mid + 1; }\<close>
\<close>

function bsearch :: "('a \<Rightarrow> 'a \<Rightarrow> int option) \<Rightarrow> 'a \<Rightarrow> 'a list \<Rightarrow> nat \<Rightarrow> nat \<Rightarrow> nat" where
  "bsearch cmp pivot arr left right =
     (if left < right
      then (let mid = left + (right - left) div 2
            in if negative (cmp pivot (arr ! mid))
               then bsearch cmp pivot arr left mid
               else bsearch cmp pivot arr (mid + 1) right)
      else left)"
  by pat_completeness auto
termination
  by (relation "measure (\<lambda>(cmp, pivot, arr, left, right). right - left)") auto

declare bsearch.simps [simp del]

text \<open>The sorted part, and the elements still to insert.\<close>

fun BinaryInsertionSort :: "('a \<Rightarrow> 'a \<Rightarrow> int option) \<Rightarrow> 'a list \<Rightarrow> 'a list \<Rightarrow> 'a list" where
  "BinaryInsertionSort cmp pre [] = pre"
| "BinaryInsertionSort cmp pre (pivot # rest) =
     (let p = bsearch cmp pivot pre 0 (length pre)
      in BinaryInsertionSort cmp (take p pre @ pivot # drop p pre) rest)"

definition Array_sort :: "('a \<Rightarrow> 'a \<Rightarrow> int option) \<Rightarrow> 'a list \<Rightarrow> 'a list" where
  "Array_sort cmp xs =
     (case CountAndMakeRun cmp xs of (run, rest) \<Rightarrow> BinaryInsertionSort cmp run rest)"

section \<open>Chart points\<close>

text \<open>
  The objects built in \<^verbatim>\<open>loadData\<close>: \<^verbatim>\<open>{ date, hours, min, max, type }\<close>. The date is
  the raw value of the entry, passed through.
\<close>

record ChartPoint =
  date :: jsval
  hours :: jsnum
  min' :: jsnum
  max' :: jsnum
  type' :: string

definition byDate :: "(jsval \<Rightarrow> int option) \<Rightarrow> ChartPoint \<Rightarrow> ChartPoint \<Rightarrow> int option" where
  "byDate D a b = date_diff (D (date a)) (D (date b))"

text \<open>
  \<^verbatim>\<open>const chartData = [...historyData, ...forecastPoints].sort((a, b) => new Date(a.date) - new Date(b.date))\<close>
\<close>

definition chartData :: "(jsval \<Rightarrow> int option) \<Rightarrow> ChartPoint list \<Rightarrow> ChartPoint list \<Rightarrow> ChartPoint list" where
  "chartData D historyData forecastPoints = Array_sort (byDate D) (historyData @ forecastPoints)"

text \<open>The time of a point whose date is valid, and the order of two such points.\<close>

definition time_of :: "(jsval \<Rightarrow> int option) \<Rightarrow> jsval \<Rightarrow> int" where
  "time_of D d = (case D d of None \<Rightarrow> 0 | Some t \<Rightarrow> t)"

definition date_le :: "(jsval \<Rightarrow> int option) \<Rightarrow> ChartPoint \<Rightarrow> ChartPoint \<Rightarrow> bool" where
  "date_le D a b =
     (case D (date a) of None \<Rightarrow> False
      | Some s \<Rightarrow> (case D (date b) of None \<Rightarrow> False | Some t \<Rightarrow> s \<le> t))"

section \<open>Normalising the entries\<close>

text \<open>
  \<^verbatim>\<open>xs.map(f)\<close> with a callback that may throw: the first throw ends the call. A value
  that is not an array has no \<^verbatim>\<open>map\<close> method, and calling it is a TypeError.
\<close>

fun mapE :: "('a \<Rightarrow> js_error + 'b) \<Rightarrow> 'a list \<Rightarrow> js_error + 'b list" where
  "mapE f [] = Inr []"
| "mapE f (x # xs) =
     (case f x of
        Inl e \<Rightarrow> Inl e
      | Inr y \<Rightarrow> (case mapE f xs of Inl e \<Rightarrow> Inl e | Inr ys \<Rightarrow> Inr (y # ys)))"

text \<open>The elements of an array; a value that is not an array has none.\<close>

definition elements :: "jsval \<Rightarrow> jsval list" where
  "elements v = (case v of JArr xs \<Rightarrow> xs | _ \<Rightarrow> [])"

definition Array_map :: "(jsval \<Rightarrow> js_error + 'b) \<Rightarrow> jsval \<Rightarrow> js_error + 'b list" where
  "Array_map f v = (case v of JArr xs \<Rightarrow> mapE f xs | _ \<Rightarrow> Inl TypeError)"

text \<open>
  The callback of \<^verbatim>\<open>historyData\<close>:
  \<^verbatim>\<open>(log) => ({ date: log.date, hours: Number(log.duration) || 0, min: Number(log.duration) || 0,
     max: Number(log.duration) || 0, type: 'history' })\<close>.
  \<^verbatim>\<open>log.date\<close> throws when the entry is \<^verbatim>\<open>null\<close>; once it has not, the later reads
  of \<^verbatim>\<open>log\<close> cannot. (The entry is called \<open>entry\<close> here.)
\<close>

definition historyPoint :: "(jsval \<Rightarrow> jsnum) \<Rightarrow> jsval \<Rightarrow> js_error + ChartPoint" where
  "historyPoint S entry =
     (case dot entry ''date'' of
        Inl e \<Rightarrow> Inl e
      | Inr d \<Rightarrow>
          Inr \<lparr>date = d,
               hours = or_num (Number S (get_prop entry ''duration'')) (Finite 0),
               min' = or_num (Number S (get_prop entry ''duration'')) (Finite 0),
               max' = or_num (Number S (get_prop entry ''duration'')) (Finite 0),
               type' = ''history''\<rparr>)"

text \<open>
  \<^verbatim>\<open>const historyData = (logsRes?.data ?? []).map(...).sort((a, b) => new Date(a.date) - new Date(b.date))\<close>;
  the argument is the value of \<^verbatim>\<open>logsRes?.data\<close>.
\<close>

definition historyData :: "(jsval \<Rightarrow> int option) \<Rightarrow> (jsval \<Rightarrow> jsnum) \<Rightarrow> jsval \<Rightarrow> js_error + ChartPoint list" where
  "historyData D S logsData =
     (case Array_map (historyPoint S) (nullish_or logsData (JArr [])) of
        Inl e \<Rightarrow> Inl e
      | Inr ps \<Rightarrow> Inr (Array_sort (byDate D) ps))"

text \<open>
  The callback of \<^verbatim>\<open>forecastPoints\<close>:
  \<^verbatim>\<open>(f) => ({ date: f.date, hours: Number(f.hours) || 0,
     min: Number(f.range?.min) || Number(f.hours) || 0,
     max: Number(f.range?.max) || Number(f.hours) || 0, type: 'forecast' })\<close>.
\<close>

definition forecastPoint :: "(jsval \<Rightarrow> jsnum) \<Rightarrow> jsval \<Rightarrow> js_error + ChartPoint" where
  "forecastPoint S f =
     (case dot f ''date'' of
        Inl e \<Rightarrow> Inl e
      | Inr d \<Rightarrow>
          Inr \<lparr>date = d,
               hours = or_num (Number S (get_prop f ''hours'')) (Finite 0),
               min' = or_num (or_num (Number S (opt_prop (get_prop f ''range'') ''min''))
                                     (Number S (get_prop f ''hours''))) (Finite 0),
               max' = or_num (or_num (Number S (opt_prop (get_prop f ''range'') ''max''))
                                     (Number S (get_prop f ''hours''))) (Finite 0),
               type' = ''forecast''\<rparr>)"

text \<open>
  \<^verbatim>\<open>const forecastPoints = (forecastRes?.data?.forecast ?? []).map(...)\<close>; the argument
  is the value of \<^verbatim>\<open>forecastRes?.data?.forecast\<close>.
\<close>

definition forecastPoints :: "(jsval \<Rightarrow> jsnum) \<Rightarrow> jsval \<Rightarrow> js_error + ChartPoint list" where
  "forecastPoints S fc = Array_map (forecastPoint S) (nullish_or fc (JArr []))"

section \<open>The next forecast\<close>

text \<open>
  On the raw forecast points the comparator reads \<^verbatim>\<open>a.date\<close> and \<^verbatim>\<open>b.date\<close> itself,
  and throws when an element is \<^verbatim>\<open>null\<close>. The sort passes the throw on.
\<close>

definition rawByDate :: "(jsval \<Rightarrow> int option) \<Rightarrow> jsval \<Rightarrow> jsval \<Rightarrow> js_error + int option" where
  "rawByDate D a b =
     (case dot a ''date'' of
        Inl e \<Rightarrow> Inl e
      | Inr da \<Rightarrow> (case dot b ''date'' of
                     Inl e \<Rightarrow> Inl e
                   | Inr db \<Rightarrow> Inr (date_diff (D da) (D db))))"

text \<open>The same algorithm, for a comparator that may throw.\<close>

fun run_lengthE :: "('a \<Rightarrow> 'a \<Rightarrow> js_error + int option) \<Rightarrow> bool \<Rightarrow> 'a \<Rightarrow> 'a list \<Rightarrow> js_error + nat" where
  "run_lengthE cmp desc prev [] = Inr 0"
| "run_lengthE cmp desc prev (x # xs) =
     (case cmp x prev of
        Inl e \<Rightarrow> Inl e
      | Inr v \<Rightarrow>
          if negative v = desc
          then (case run_lengthE cmp desc x xs of Inl e \<Rightarrow> Inl e | Inr n \<Rightarrow> Inr (Suc n))
          else Inr 0)"

definition CountAndMakeRunE :: "('a \<Rightarrow> 'a \<Rightarrow> js_error + int option) \<Rightarrow> 'a list \<Rightarrow> js_error + 'a list \<times> 'a list" where
  "CountAndMakeRunE cmp xs =
     (case xs of
        a # b # rest \<Rightarrow>
          (case cmp b a of
             Inl e \<Rightarrow> Inl e
           | Inr v \<Rightarrow>
               (case run_lengthE cmp (negative v) b rest of
                  Inl e \<Rightarrow> Inl e
                | Inr m \<Rightarrow>
                    (let n = Suc (Suc m)
                     in Inr (if negative v then rev (take n xs) else take n xs, drop n xs))))
      | _ \<Rightarrow> Inr (xs, []))"

function bsearchE :: "('a \<Rightarrow> 'a \<Rightarrow> js_error + int option) \<Rightarrow> 'a \<Rightarrow> 'a list \<Rightarrow> nat \<Rightarrow> nat \<Rightarrow> js_error + nat" where
  "bsearchE cmp pivot arr left right =
     (if left < right
      then (let mid = left + (right - left) div 2
            in case cmp pivot (arr ! mid) of
                 Inl e \<Rightarrow> Inl e
               | Inr v \<Rightarrow>
                   if negative v
                   then bsearchE cmp pivot arr left mid
                   else bsearchE cmp pivot arr (mid + 1) right)
      else Inr left)"
  by pat_completeness auto
termination
  by (relation "measure (\<lambda>(cmp, pivot, arr, left, right). right - left)") auto

declare bsearchE.simps [simp del]

fun BinaryInsertionSortE :: "('a \<Rightarrow> 'a \<Rightarrow> js_error + int option) \<Rightarrow> 'a list \<Rightarrow> 'a list \<Rightarrow> js_error + 'a list" where
  "BinaryInsertionSortE cmp pre [] = Inr pre"
| "BinaryInsertionSortE cmp pre (pivot # rest) =
     (case bsearchE cmp pivot pre 0 (length pre) of
        Inl e \<Rightarrow> Inl e
      | Inr p \<Rightarrow> BinaryInsertionSortE cmp (take p pre @ pivot # drop p pre) rest)"

definition Array_sortE :: "('a \<Rightarrow> 'a \<Rightarrow> js_error + int option) \<Rightarrow> 'a list \<Rightarrow> js_error + 'a list" where
  "Array_sortE cmp xs =
     (case CountAndMakeRunE cmp xs of
        Inl e \<Rightarrow> Inl e
      | Inr (run, rest) \<Rightarrow> BinaryInsertionSortE cmp run rest)"

text \<open>
  On an array of values the sort puts the elements that are \<^verbatim>\<open>undefined\<close> last,
  without calling the comparator on them.
\<close>

definition Array_sort_values :: "(jsval \<Rightarrow> jsval \<Rightarrow> js_error + int option) \<Rightarrow> jsval list \<Rightarrow> js_error + jsval list" where
  "Array_sort_values cmp xs =
     (case Array_sortE cmp (filter (\<lambda>v. v \<noteq> JUndefined) xs) of
        Inl e \<Rightarrow> Inl e
      | Inr ys \<Rightarrow> Inr (ys @ filter (\<lambda>v. v = JUndefined) xs))"

text \<open>
  \<^verbatim>\<open>const nextForecast = (() => {
       const fcArr = forecast?.forecast ?? [];
       if (!Array.isArray(fcArr) || fcArr.length === 0) return null;
       const sorted = [...fcArr].sort((a, b) => new Date(a.date) - new Date(b.date));
       return sorted[0];
     })();\<close>
  The argument is the \<^verbatim>\<open>forecast\<close> slot of the component's state.
\<close>

definition nextForecast :: "(jsval \<Rightarrow> int option) \<Rightarrow> jsval \<Rightarrow> js_error + jsval" where
  "nextForecast D forecast =
     (case nullish_or (opt_prop forecast ''forecast'') (JArr []) of
        JArr fcArr \<Rightarrow>
          if length fcArr = 0 then Inr JNull
          else (case Array_sort_values (rawByDate D) fcArr of
                  Inl e \<Rightarrow> Inl e
                | Inr sorted' \<Rightarrow> Inr (case sorted' of [] \<Rightarrow> JUndefined | p # ps \<Rightarrow> p))
      | _ \<Rightarrow> Inr JNull)"

text \<open>
  Truthiness of a value; \<^verbatim>\<open>Math.round\<close>, which rounds a half up; and the product with
  \<open>100\<close>, taken exactly (the rounding of the double product is not modelled).
\<close>

fun truthy :: "jsval \<Rightarrow> bool" where
  "truthy JUndefined = False"
| "truthy JNull = False"
| "truthy (JBool b) = b"
| "truthy (JNum n) = truthy_num n"
| "truthy (JStr s) = (s \<noteq> [])"
| "truthy (JArr xs) = True"
| "truthy (JObj kvs) = True"

fun Math_round :: "jsnum \<Rightarrow> jsnum" where
  "Math_round (Finite r) = Finite (of_int \<lfloor>r + 1 / 2\<rfloor>)"
| "Math_round n = n"

fun times_100 :: "jsnum \<Rightarrow> jsnum" where
  "times_100 (Finite r) = Finite (r * 100)"
| "times_100 n = n"

text \<open>
  The confidence note of the summary card:
  \<^verbatim>\<open>forecast?.confidence ? `${Math.round(forecast.confidence * 100)}%` : '-'\<close>.
  The result is the number printed before the percent sign; \<open>None\<close> is the dash.
\<close>

definition confidencePercent :: "(jsval \<Rightarrow> jsnum) \<Rightarrow> jsval \<Rightarrow> jsnum option" where
  "confidencePercent S forecast =
     (if truthy (opt_prop forecast ''confidence'')
      then Some (Math_round (times_100 (Number S (get_prop forecast ''confidence''))))
      else None)"

text \<open>
  The summary card: \<^verbatim>\<open>{nextForecast ? (<> ... </>) : (<div>No forecast available</div>)}\<close>.
  It shows the point and the confidence note when \<^verbatim>\<open>nextForecast\<close> is truthy, and
  neither otherwise (\<open>JNull\<close>, \<open>None\<close>).
\<close>

definition summarize :: "(jsval \<Rightarrow> int option) \<Rightarrow> (jsval \<Rightarrow> jsnum) \<Rightarrow> jsval \<Rightarrow> js_error + jsval \<times> jsnum option" where
  "summarize D S forecast =
     (case nextForecast D forecast of
        Inl e \<Rightarrow> Inl e
      | Inr p \<Rightarrow> Inr (if truthy p then (p, confidencePercent S forecast) else (JNull, None)))"

section \<open>Formatting a date\<close>

text \<open>
  \<^verbatim>\<open>const formatDate = (dateStr) => {
       try {
         const date = new Date(dateStr);
         return date.toLocaleDateString('en-US', { month: 'short', day: 'numeric' });
       } catch {
         return dateStr;
       }
     };\<close>
  Neither call of the \<^verbatim>\<open>try\<close> block throws: the constructor makes an invalid date of
  what it cannot parse, and \<^verbatim>\<open>toLocaleDateString\<close> returns the string
  \<^verbatim>\<open>Invalid Date\<close> for it. How a valid date is printed is the parameter \<open>fmt\<close>.
\<close>

definition toLocaleDateString :: "(int \<Rightarrow> string) \<Rightarrow> int option \<Rightarrow> string" where
  "toLocaleDateString fmt tv = (case tv of None \<Rightarrow> ''Invalid Date'' | Some t \<Rightarrow> fmt t)"

definition formatDate_try :: "(jsval \<Rightarrow> int option) \<Rightarrow> (int \<Rightarrow> string) \<Rightarrow> jsval \<Rightarrow> js_error + string" where
  "formatDate_try D fmt dateStr = Inr (toLocaleDateString fmt (D dateStr))"

definition formatDate :: "(jsval \<Rightarrow> int option) \<Rightarrow> (int \<Rightarrow> string) \<Rightarrow> jsval \<Rightarrow> jsval" where
  "formatDate D fmt dateStr =
     (case formatDate_try D fmt dateStr of Inl e \<Rightarrow> dateStr | Inr s \<Rightarrow> JStr s)"

section \<open>Loading the data\<close>

text \<open>
  The state of the component, and the outcome of each of the three requests that
  \<^verbatim>\<open>Promise.all\<close> joins: a response object, or a rejection.
\<close>

record view_state =
  stats :: jsval
  forecast :: jsval
  logs :: "ChartPoint list"
  loading :: bool

datatype settled = Fulfilled jsval | Rejected

definition default_stats :: jsval where
  "default_stats =
     JObj [(''totalHours'', JNum (Finite 0)), (''avgPerDay'', JNum (Finite 0)),
           (''entries'', JNum (Finite 0))]"

definition initial_state :: view_state where
  "initial_state = \<lparr>stats = default_stats, forecast = JNull, logs = [], loading = True\<rparr>"

text \<open>
  \<^verbatim>\<open>loadData\<close>. \<^verbatim>\<open>await Promise.all([...])\<close> throws as soon as one request is
  rejected, and the \<^verbatim>\<open>catch\<close> block only logs. A throw after \<^verbatim>\<open>setStats\<close> and
  \<^verbatim>\<open>setForecast\<close> (a TypeError of one of the two \<^verbatim>\<open>map\<close> calls) leaves these two
  updates in place. The \<^verbatim>\<open>finally\<close> block ends the loading in every case.
\<close>

definition loadData :: "(jsval \<Rightarrow> int option) \<Rightarrow> (jsval \<Rightarrow> jsnum) \<Rightarrow> view_state \<Rightarrow> settled \<Rightarrow> settled \<Rightarrow> settled \<Rightarrow> view_state" where
  "loadData D S st statsRes forecastRes logsRes =
     (case statsRes of
        Rejected \<Rightarrow> st\<lparr>loading := False\<rparr>
      | Fulfilled sr \<Rightarrow>
     (case forecastRes of
        Rejected \<Rightarrow> st\<lparr>loading := False\<rparr>
      | Fulfilled fr \<Rightarrow>
     (case logsRes of
        Rejected \<Rightarrow> st\<lparr>loading := False\<rparr>
      | Fulfilled lr \<Rightarrow>
          (case historyData D S (opt_prop lr ''data'') of
             Inl e \<Rightarrow>
               st\<lparr>stats := nullish_or (opt_prop sr ''data'') default_stats,
                  forecast := nullish_or (opt_prop fr ''data'') JNull,
                  loading := False\<rparr>
           | Inr h \<Rightarrow>
               (case forecastPoints S (opt_prop (opt_prop fr ''data'') ''forecast'') of
                  Inl e \<Rightarrow>
                    st\<lparr>stats := nullish_or (opt_prop sr ''data'') default_stats,
                       forecast := nullish_or (opt_prop fr ''data'') JNull,
                       loading := False\<rparr>
                | Inr f \<Rightarrow>
                    st\<lparr>stats := nullish_or (opt_prop sr ''data'') default_stats,
                       forecast := nullish_or (opt_prop fr ''data'') JNull,
                       logs := chartData D h f,
                       loading := False\<rparr>)))))"

text \<open>
  The value is absent, or it is an array none of whose entries is \<^verbatim>\<open>null\<close> or
  \<^verbatim>\<open>undefined\<close>: these are the values on which neither of the two \<^verbatim>\<open>map\<close> calls
  of \<^verbatim>\<open>loadData\<close> throws.
\<close>

definition mappable :: "jsval \<Rightarrow> bool" where
  "mappable v =
     (case nullish_or v (JArr []) of
        JArr xs \<Rightarrow> list_all (\<lambda>e. \<not> is_nullish e) xs
      | _ \<Rightarrow> False)"

section \<open>The next forecast on a store\<close>

text \<open>
  Arrays are objects: \<^verbatim>\<open>sort\<close> permutes the array it is called on, and every holder of
  the array sees it. To follow this the arrays are put in a store, an array's address
  being its index. \<^verbatim>\<open>[...a]\<close> allocates a new array with the elements of \<open>a\<close>, and
  \<^verbatim>\<open>[]\<close> a new empty one.
\<close>

type_synonym store = "jsval list list"

datatype slot = Absent | NotArray | ArrayAt nat

definition spread :: "store \<Rightarrow> nat \<Rightarrow> nat \<times> store" where
  "spread \<sigma> a = (length \<sigma>, \<sigma> @ [\<sigma> ! a])"

text \<open>
  \<^verbatim>\<open>nextForecast\<close> again, with the value of \<^verbatim>\<open>forecast?.forecast\<close> being absent
  (\<^verbatim>\<open>null\<close> or \<^verbatim>\<open>undefined\<close>), something that is not an array, or the array at an
  address of the store. It returns the store it leaves. When the comparator throws,
  the copy is left in the state the engine had reached; the model keeps it unsorted.
\<close>

definition nextForecast_store :: "(jsval \<Rightarrow> int option) \<Rightarrow> store \<Rightarrow> slot \<Rightarrow> (js_error + jsval) \<times> store" where
  "nextForecast_store D \<sigma> fc =
     (case fc of
        Absent \<Rightarrow> (Inr JNull, \<sigma> @ [[]])
      | NotArray \<Rightarrow> (Inr JNull, \<sigma>)
      | ArrayAt a \<Rightarrow>
          if length (\<sigma> ! a) = 0 then (Inr JNull, \<sigma>)
          else (case spread \<sigma> a of
                  (c, \<sigma>') \<Rightarrow>
                    (case Array_sort_values (rawByDate D) (\<sigma>' ! c) of
                       Inl e \<Rightarrow> (Inl e, \<sigma>')
                     | Inr sorted' \<Rightarrow>
                         (Inr (case sorted' of [] \<Rightarrow> JUndefined | p # ps \<Rightarrow> p),
                          \<sigma>'[c := sorted']))))"

text \<open>The time of a raw forecast point whose date is valid.\<close>

definition raw_time :: "(jsval \<Rightarrow> int option) \<Rightarrow> jsval \<Rightarrow> int" where
  "raw_time D e = time_of D (get_prop e ''date'')"

section \<open>Example data\<close>

text \<open>
  The dates of the examples, as every engine parses them (ISO dates, midnight UTC), and
  the numeric strings of the examples.
\<close>

definition example_Date :: "jsval \<Rightarrow> int option" where
  "example_Date v =
     map_of [(JStr ''2024-01-01'', 1704067200000), (JStr ''2024-01-02'', 1704153600000),
             (JStr ''2024-03-01'', 1709251200000), (JStr ''2024-03-05'', 1709596800000)] v"

definition example_Number :: "jsval \<Rightarrow> jsnum" where
  "example_Number v =
     (case map_of [(JStr ''2'', Finite 2), (JStr ''7.5'', Finite (15 / 2))] v of
        None \<Rightarrow> NaN | Some n \<Rightarrow> n)"

text \<open>
  The data of the end-to-end scenario: one log entry, a bundle of one forecast point with
  its range and a confidence, the statistics, and a response that carries a body.
\<close>

definition example_entry :: jsval where
  "example_entry = JObj [(''date'', JStr ''2024-01-01''), (''duration'', JStr ''2'')]"

definition example_bundle :: jsval where
  "example_bundle =
     JObj [(''forecast'',
            JArr [JObj [(''date'', JStr ''2024-01-02''), (''hours'', JNum (Finite 3)),
                        (''range'', JObj [(''min'', JNum (Finite 2)), (''max'', JNum (Finite 4))])]]),
           (''confidence'', JNum (Finite (4 / 5)))]"

definition example_stats :: jsval where
  "example_stats =
     JObj [(''totalHours'', JNum (Finite 2)), (''avgPerDay'', JNum (Finite 2)),
           (''entries'', JNum (Finite 1))]"

definition response :: "jsval \<Rightarrow> jsval" where
  "response body = JObj [(''data'', body)]"

definition example_history_point :: ChartPoint where
  "example_history_point =
     \<lparr>date = JStr ''2024-01-01'', hours = Finite 2, min' = Finite 2, max' = Finite 2,
      type' = ''history''\<rparr>"

definition example_forecast_point :: ChartPoint where
  "example_forecast_point =
     \<lparr>date = JStr ''2024-01-02'', hours = Finite 3, min' = Finite 2, max' = Finite 4,
      type' = ''forecast''\<rparr>"

definition point :: "string \<Rightarrow> real \<Rightarrow> string \<Rightarrow> ChartPoint" where
  "point d h ty = \<lparr>date = JStr d, hours = Finite h, min' = Finite h, max' = Finite h, type' = ty\<rparr>"

section \<open>Properties of the sort\<close>

lemma mset_BinaryInsertionSort: "mset (BinaryInsertionSort cmp pre rest) = mset pre + mset rest"
proof (induction rest arbitrary: pre)
  case Nil
  then show ?case by simp
next
  case (Cons pivot rest)
  let ?p = "bsearch cmp pivot pre 0 (length pre)"
  have "mset (take ?p pre @ pivot # drop ?p pre) = mset pre + {#pivot#}"
    by (metis add_mset_add_single append_take_drop_id mset.simps(2) union_code union_mset_add_mset_right)
  with Cons.IH [of "take ?p pre @ pivot # drop ?p pre"] show ?case
    by (simp add: Let_def)
qed

lemma CountAndMakeRun_split:
  assumes "CountAndMakeRun cmp xs = (run, rest)"
  shows "\<exists>n. (run = take n xs \<or> run = rev (take n xs)) \<and> rest = drop n xs"
proof (cases xs)
  case Nil
  with assms show ?thesis by (auto simp: CountAndMakeRun_def)
next
  case (Cons a ys)
  show ?thesis
  proof (cases ys)
    case Nil
    with Cons assms have "run = take 1 xs \<and> rest = drop 1 xs"
      by (auto simp: CountAndMakeRun_def)
    then show ?thesis by blast
  next
    case (Cons b zs)
    let ?n = "Suc (Suc (run_length cmp (negative (cmp b a)) b zs))"
    from Cons \<open>xs = a # ys\<close>
    have "CountAndMakeRun cmp xs =
        (if negative (cmp b a) then rev (take ?n xs) else take ?n xs, drop ?n xs)"
      by (simp add: CountAndMakeRun_def Let_def)
    with assms
    have "run = (if negative (cmp b a) then rev (take ?n xs) else take ?n xs)"
      and "rest = drop ?n xs"
      by simp_all
    then have "(run = take ?n xs \<or> run = rev (take ?n xs)) \<and> rest = drop ?n xs"
      by (cases "negative (cmp b a)") simp_all
    then show ?thesis by blast
  qed
qed

lemma mset_CountAndMakeRun:
  assumes "CountAndMakeRun cmp xs = (run, rest)"
  shows "mset run + mset rest = mset xs"
proof -
  from CountAndMakeRun_split [OF assms] obtain n
    where "run = take n xs \<or> run = rev (take n xs)" and "rest = drop n xs" by blast
  then have "mset run + mset rest = mset (take n xs) + mset (drop n xs)"
    by auto
  also have "\<dots> = mset (take n xs @ drop n xs)"
    by (simp only: mset_append)
  also have "\<dots> = mset xs"
    by (simp only: append_take_drop_id)
  finally show ?thesis .
qed

lemma mset_Array_sort: "mset (Array_sort cmp xs) = mset xs"
proof -
  obtain run rest where r: "CountAndMakeRun cmp xs = (run, rest)"
    by (cases "CountAndMakeRun cmp xs")
  then show ?thesis
    by (simp add: Array_sort_def mset_BinaryInsertionSort mset_CountAndMakeRun)
qed

text \<open>
  When the comparator orders by a key (every date is valid), the run is sorted, the
  search finds the place after the elements that are not greater, and the result is the
  library's stable sort by the key.
\<close>

lemma run_length_ascending:
  assumes "\<And>a b. a \<in> insert prev (set xs) \<Longrightarrow> b \<in> insert prev (set xs) \<Longrightarrow>
             negative (cmp a b) = ((k a :: int) < k b)"
  shows "sorted (map k (prev # take (run_length cmp False prev xs) xs))"
  using assms
proof (induction xs arbitrary: prev)
  case Nil
  then show ?case by simp
next
  case (Cons x xs)
  show ?case
  proof (cases "negative (cmp x prev)")
    case True
    then show ?thesis by simp
  next
    case False
    have "negative (cmp x prev) = (k x < k prev)"
      by (rule Cons.prems) simp_all
    with False have le: "k prev \<le> k x" by simp
    have "sorted (map k (x # take (run_length cmp False x xs) xs))"
    proof (rule Cons.IH)
      fix a b
      assume "a \<in> insert x (set xs)" and "b \<in> insert x (set xs)"
      then show "negative (cmp a b) = (k a < k b)"
        by (intro Cons.prems) auto
    qed
    with False le show ?thesis by auto
  qed
qed

lemma run_length_descending:
  assumes "\<And>a b. a \<in> insert prev (set xs) \<Longrightarrow> b \<in> insert prev (set xs) \<Longrightarrow>
             negative (cmp a b) = ((k a :: int) < k b)"
  shows "sorted_wrt (\<lambda>a b. k b < k a) (prev # take (run_length cmp True prev xs) xs)"
  using assms
proof (induction xs arbitrary: prev)
  case Nil
  then show ?case by simp
next
  case (Cons x xs)
  show ?case
  proof (cases "negative (cmp x prev)")
    case False
    then show ?thesis by simp
  next
    case True
    have "negative (cmp x prev) = (k x < k prev)"
      by (rule Cons.prems) simp_all
    with True have lt: "k x < k prev" by simp
    have "sorted_wrt (\<lambda>a b. k b < k a) (x # take (run_length cmp True x xs) xs)"
    proof (rule Cons.IH)
      fix a b
      assume "a \<in> insert x (set xs)" and "b \<in> insert x (set xs)"
      then show "negative (cmp a b) = (k a < k b)"
        by (intro Cons.prems) auto
    qed
    with True lt show ?thesis by auto
  qed
qed

lemma filter_rev_strict:
  fixes k :: "'a \<Rightarrow> int"
  assumes "sorted_wrt (\<lambda>a b. k b < k a) r"
  shows "filter (\<lambda>y. k y = v) (rev r) = filter (\<lambda>y. k y = v) r"
  using assms
proof (induction r)
  case Nil
  then show ?case by simp
next
  case (Cons x r)
  then have IH: "filter (\<lambda>y. k y = v) (rev r) = filter (\<lambda>y. k y = v) r" by simp
  show ?case
  proof (cases "k x = v")
    case True
    with Cons.prems have "\<forall>y \<in> set r. k y \<noteq> v" by auto
    then have "filter (\<lambda>y. k y = v) r = []" by (simp add: filter_empty_conv)
    with IH True show ?thesis by simp
  next
    case False
    with IH show ?thesis by simp
  qed
qed

lemma sorted_rev_strict:
  fixes k :: "'a \<Rightarrow> int"
  assumes "sorted_wrt (\<lambda>a b. k b < k a) r"
  shows "sorted (map k (rev r))"
proof -
  from assms have "sorted_wrt (\<lambda>a b. k a < k b) (rev r)"
    by (simp add: sorted_wrt_rev)
  then have "sorted_wrt (\<lambda>a b. k a \<le> k b) (rev r)"
    by (rule sorted_wrt_mono_rel [rotated]) simp
  then show ?thesis by (simp add: sorted_map)
qed

lemma CountAndMakeRun_sorted:
  fixes k :: "'a \<Rightarrow> int"
  assumes cons: "\<And>a b. a \<in> set xs \<Longrightarrow> b \<in> set xs \<Longrightarrow> negative (cmp a b) = (k a < k b)"
    and run: "CountAndMakeRun cmp xs = (run, rest)"
  shows "sorted (map k run)"
    and "filter (\<lambda>y. k y = v) (run @ rest) = filter (\<lambda>y. k y = v) xs"
proof -
  have "sorted (map k run) \<and> filter (\<lambda>y. k y = v) (run @ rest) = filter (\<lambda>y. k y = v) xs"
  proof (cases xs)
    case Nil
    with run show ?thesis by (auto simp: CountAndMakeRun_def)
  next
    case (Cons a ys)
    show ?thesis
    proof (cases ys)
      case Nil
      with Cons run show ?thesis by (auto simp: CountAndMakeRun_def)
    next
      case ys: (Cons b zs)
      have xs: "xs = a # b # zs" using Cons ys by simp
      have cons': "negative (cmp x y) = (k x < k y)"
        if "x \<in> insert b (set zs)" and "y \<in> insert b (set zs)" for x y
        using that by (intro cons) (auto simp: xs)
      have ba: "negative (cmp b a) = (k b < k a)"
        by (rule cons) (simp_all add: xs)
      show ?thesis
      proof (cases "negative (cmp b a)")
        case False
        let ?n = "run_length cmp False b zs"
        from False run have r: "run = a # b # take ?n zs" and rest: "rest = drop ?n zs"
          by (auto simp: CountAndMakeRun_def xs Let_def)
        have "sorted (map k (b # take ?n zs))"
          by (rule run_length_ascending) (rule cons')
        with False ba have "sorted (map k run)"
          unfolding r by auto
        moreover have "run @ rest = xs"
          by (simp add: r rest xs)
        ultimately show ?thesis by simp
      next
        case True
        let ?n = "run_length cmp True b zs"
        let ?r = "a # b # take ?n zs"
        from True run have r: "run = rev ?r" and rest: "rest = drop ?n zs"
          by (auto simp: CountAndMakeRun_def xs Let_def)
        have "sorted_wrt (\<lambda>a b. k b < k a) (b # take ?n zs)"
          by (rule run_length_descending) (rule cons')
        with True ba have strict: "sorted_wrt (\<lambda>a b. k b < k a) ?r"
          by auto
        have "filter (\<lambda>y. k y = v) (rev ?r) = filter (\<lambda>y. k y = v) ?r"
          by (rule filter_rev_strict [OF strict])
        moreover have "?r @ rest = xs"
          by (simp add: rest xs)
        ultimately have "filter (\<lambda>y. k y = v) (run @ rest) = filter (\<lambda>y. k y = v) xs"
          unfolding r by (metis filter_append)
        with sorted_rev_strict [OF strict] r show ?thesis by simp
      qed
    qed
  qed
  then show "sorted (map k run)"
    and "filter (\<lambda>y. k y = v) (run @ rest) = filter (\<lambda>y. k y = v) xs"
    by simp_all
qed

lemma bsearch_spec:
  fixes k :: "'a \<Rightarrow> int"
  assumes "\<And>i. i < length arr \<Longrightarrow> negative (cmp pivot (arr ! i)) = (k pivot < k (arr ! i))"
    and "sorted (map k arr)"
    and "left \<le> right" and "right \<le> length arr"
    and "\<And>i. i < left \<Longrightarrow> k (arr ! i) \<le> k pivot"
    and "\<And>i. right \<le> i \<Longrightarrow> i < length arr \<Longrightarrow> k pivot < k (arr ! i)"
  shows "(\<forall>i < bsearch cmp pivot arr left right. k (arr ! i) \<le> k pivot) \<and>
         (\<forall>i. bsearch cmp pivot arr left right \<le> i \<and> i < length arr \<longrightarrow> k pivot < k (arr ! i)) \<and>
         bsearch cmp pivot arr left right \<le> length arr"
  using assms
proof (induction cmp pivot arr left right rule: bsearch.induct)
  case (1 cmp pivot arr left right)
  show ?case
  proof (cases "left < right")
    case False
    with "1.prems" have "left = right" by simp
    with "1.prems" show ?thesis
      by (subst bsearch.simps, subst (2) bsearch.simps, subst (3) bsearch.simps) auto
  next
    case True
    let ?mid = "left + (right - left) div 2"
    from True "1.prems"(4) have mid: "left \<le> ?mid" "?mid < right" "?mid < length arr"
      by auto
    have nth_mono: "k (arr ! i) \<le> k (arr ! j)" if "i \<le> j" "j < length arr" for i j
      using "1.prems"(2) that by (simp add: sorted_iff_nth_mono)
    show ?thesis
    proof (cases "negative (cmp pivot (arr ! ?mid))")
      case neg: True
      with "1.prems"(1) [OF mid(3)] have lt: "k pivot < k (arr ! ?mid)" by simp
      have "(\<forall>i < bsearch cmp pivot arr left ?mid. k (arr ! i) \<le> k pivot) \<and>
         (\<forall>i. bsearch cmp pivot arr left ?mid \<le> i \<and> i < length arr \<longrightarrow> k pivot < k (arr ! i)) \<and>
         bsearch cmp pivot arr left ?mid \<le> length arr"
      proof (rule "1.IH"(1) [OF True refl neg])
        show "\<And>i. i < length arr \<Longrightarrow> negative (cmp pivot (arr ! i)) = (k pivot < k (arr ! i))"
          by (rule "1.prems"(1))
        show "sorted (map k arr)" by (rule "1.prems"(2))
        show "left \<le> ?mid" by (rule mid(1))
        show "?mid \<le> length arr" using mid(3) by simp
        show "\<And>i. i < left \<Longrightarrow> k (arr ! i) \<le> k pivot" by (rule "1.prems"(5))
        show "k pivot < k (arr ! i)" if "?mid \<le> i" "i < length arr" for i
          using lt nth_mono [OF that] by simp
      qed
      moreover have "bsearch cmp pivot arr left right = bsearch cmp pivot arr left ?mid"
        using True neg by (subst bsearch.simps) (simp add: Let_def)
      ultimately show ?thesis by simp
    next
      case neg: False
      with "1.prems"(1) [OF mid(3)] have le: "k (arr ! ?mid) \<le> k pivot" by simp
      have "(\<forall>i < bsearch cmp pivot arr (?mid + 1) right. k (arr ! i) \<le> k pivot) \<and>
         (\<forall>i. bsearch cmp pivot arr (?mid + 1) right \<le> i \<and> i < length arr \<longrightarrow> k pivot < k (arr ! i)) \<and>
         bsearch cmp pivot arr (?mid + 1) right \<le> length arr"
      proof (rule "1.IH"(2) [OF True refl neg])
        show "\<And>i. i < length arr \<Longrightarrow> negative (cmp pivot (arr ! i)) = (k pivot < k (arr ! i))"
          by (rule "1.prems"(1))
        show "sorted (map k arr)" by (rule "1.prems"(2))
        show "?mid + 1 \<le> right" using mid(2) by simp
        show "right \<le> length arr" by (rule "1.prems"(4))
        show "k (arr ! i) \<le> k pivot" if "i < ?mid + 1" for i
        proof -
          from that have "i \<le> ?mid" by simp
          from nth_mono [OF this mid(3)] le show ?thesis by simp
        qed
        show "\<And>i. right \<le> i \<Longrightarrow> i < length arr \<Longrightarrow> k pivot < k (arr ! i)"
          by (rule "1.prems"(6))
      qed
      moreover have "bsearch cmp pivot arr left right = bsearch cmp pivot arr (?mid + 1) right"
        using True neg by (subst bsearch.simps) (simp add: Let_def)
      ultimately show ?thesis by simp
    qed
  qed
qed

lemma insert_at_sorted:
  fixes k :: "'a \<Rightarrow> int"
  assumes "sorted (map k pre)" and "p \<le> length pre"
    and "\<forall>i < p. k (pre ! i) \<le> k pivot"
    and "\<forall>i. p \<le> i \<and> i < length pre \<longrightarrow> k pivot < k (pre ! i)"
  shows "sorted (map k (take p pre @ pivot # drop p pre))"
    and "filter (\<lambda>y. k y = v) (take p pre @ pivot # drop p pre) = filter (\<lambda>y. k y = v) (pre @ [pivot])"
proof -
  have tk: "k y \<le> k pivot" if "y \<in> set (take p pre)" for y
  proof -
    from that obtain i where "i < length (take p pre)" and "y = take p pre ! i"
      by (auto simp: in_set_conv_nth)
    with assms(2,3) show ?thesis by simp
  qed
  have dr: "k pivot < k y" if "y \<in> set (drop p pre)" for y
  proof -
    from that obtain i where i: "i < length (drop p pre)" and "y = drop p pre ! i"
      by (auto simp: in_set_conv_nth)
    with assms(2) have "y = pre ! (p + i)" by simp
    moreover from i have "p + i < length pre" by simp
    ultimately show ?thesis using assms(4) by simp
  qed
  from assms(1) have "sorted (map k (take p pre @ drop p pre))" by simp
  then have s: "sorted (map k (take p pre))" "sorted (map k (drop p pre))"
    "\<forall>x \<in> set (take p pre). \<forall>y \<in> set (drop p pre). k x \<le> k y"
    unfolding map_append sorted_append by auto
  show "sorted (map k (take p pre @ pivot # drop p pre))"
    unfolding map_append sorted_append using s tk dr by (auto intro: less_imp_le)
  have "filter (\<lambda>y. k y = v) (drop p pre) = []" if "k pivot = v"
    using that dr by (fastforce simp: filter_empty_conv)
  moreover have "filter (\<lambda>y. k y = v) pre = filter (\<lambda>y. k y = v) (take p pre) @ filter (\<lambda>y. k y = v) (drop p pre)"
    by (metis append_take_drop_id filter_append)
  ultimately show "filter (\<lambda>y. k y = v) (take p pre @ pivot # drop p pre) = filter (\<lambda>y. k y = v) (pre @ [pivot])"
    by auto
qed

lemma BinaryInsertionSort_sorted:
  fixes k :: "'a \<Rightarrow> int"
  assumes "\<And>a b. a \<in> set pre \<union> set rest \<Longrightarrow> b \<in> set pre \<union> set rest \<Longrightarrow> negative (cmp a b) = (k a < k b)"
    and "sorted (map k pre)"
  shows "sorted (map k (BinaryInsertionSort cmp pre rest)) \<and>
         filter (\<lambda>y. k y = v) (BinaryInsertionSort cmp pre rest) = filter (\<lambda>y. k y = v) (pre @ rest)"
  using assms
proof (induction rest arbitrary: pre)
  case Nil
  then show ?case by simp
next
  case (Cons pivot rest)
  let ?p = "bsearch cmp pivot pre 0 (length pre)"
  let ?pre = "take ?p pre @ pivot # drop ?p pre"
  have spec: "(\<forall>i < ?p. k (pre ! i) \<le> k pivot) \<and>
         (\<forall>i. ?p \<le> i \<and> i < length pre \<longrightarrow> k pivot < k (pre ! i)) \<and> ?p \<le> length pre"
  proof (rule bsearch_spec)
    show "negative (cmp pivot (pre ! i)) = (k pivot < k (pre ! i))" if "i < length pre" for i
      using that by (intro Cons.prems(1)) auto
    show "sorted (map k pre)" by (rule Cons.prems(2))
  qed simp_all
  then have srt: "sorted (map k ?pre)"
    using insert_at_sorted(1) [OF Cons.prems(2), of ?p pivot] by simp
  from spec have flt: "filter (\<lambda>y. k y = v) ?pre = filter (\<lambda>y. k y = v) (pre @ [pivot])"
    using insert_at_sorted(2) [OF Cons.prems(2), of ?p pivot v] by simp
  have set_pre: "set ?pre = insert pivot (set pre)"
  proof -
    have "set (take ?p pre) \<union> set (drop ?p pre) = set pre"
      by (metis append_take_drop_id set_append)
    then show ?thesis by auto
  qed
  have IH: "sorted (map k (BinaryInsertionSort cmp ?pre rest)) \<and>
         filter (\<lambda>y. k y = v) (BinaryInsertionSort cmp ?pre rest) = filter (\<lambda>y. k y = v) (?pre @ rest)"
  proof (rule Cons.IH [OF _ srt])
    fix a b
    assume "a \<in> set ?pre \<union> set rest" and "b \<in> set ?pre \<union> set rest"
    then show "negative (cmp a b) = (k a < k b)"
      unfolding set_pre by (intro Cons.prems(1)) auto
  qed
  have "filter (\<lambda>y. k y = v) (?pre @ rest) = filter (\<lambda>y. k y = v) ?pre @ filter (\<lambda>y. k y = v) rest"
    by (simp only: filter_append)
  also have "\<dots> = filter (\<lambda>y. k y = v) (pre @ [pivot]) @ filter (\<lambda>y. k y = v) rest"
    by (simp only: flt)
  also have "\<dots> = filter (\<lambda>y. k y = v) (pre @ pivot # rest)"
    by simp
  finally have "filter (\<lambda>y. k y = v) (?pre @ rest) = filter (\<lambda>y. k y = v) (pre @ pivot # rest)" .
  moreover have "BinaryInsertionSort cmp pre (pivot # rest) = BinaryInsertionSort cmp ?pre rest"
    by (simp add: Let_def)
  ultimately show ?case using IH by simp
qed

lemma Array_sort_sort_key:
  fixes k :: "'a \<Rightarrow> int"
  assumes "\<And>a b. a \<in> set xs \<Longrightarrow> b \<in> set xs \<Longrightarrow> negative (cmp a b) = (k a < k b)"
  shows "Array_sort cmp xs = sort_key k xs"
proof -
  obtain run rest where r: "CountAndMakeRun cmp xs = (run, rest)"
    by (cases "CountAndMakeRun cmp xs")
  from mset_CountAndMakeRun [OF r] have "set run \<union> set rest = set xs"
    by (metis set_mset_mset set_mset_union)
  then have cons: "negative (cmp a b) = (k a < k b)"
    if "a \<in> set run \<union> set rest" and "b \<in> set run \<union> set rest" for a b
    using that assms by auto
  have B: "sorted (map k (BinaryInsertionSort cmp run rest)) \<and>
         filter (\<lambda>y. k y = v) (BinaryInsertionSort cmp run rest) = filter (\<lambda>y. k y = v) (run @ rest)" for v
    by (rule BinaryInsertionSort_sorted [OF cons CountAndMakeRun_sorted(1) [OF assms r]])
  have eq: "Array_sort cmp xs = BinaryInsertionSort cmp run rest"
    by (simp add: Array_sort_def r)
  show ?thesis
  proof (rule properties_for_sort_key [symmetric])
    show "mset (Array_sort cmp xs) = mset xs" by (rule mset_Array_sort)
    show "sorted (map k (Array_sort cmp xs))" using B eq by simp
    show "filter (\<lambda>x. k y = k x) (Array_sort cmp xs) = filter (\<lambda>x. k y = k x) xs" for y
    proof -
      have "filter (\<lambda>x. k x = k y) (Array_sort cmp xs) = filter (\<lambda>x. k x = k y) xs"
        using B [of "k y"] CountAndMakeRun_sorted(2) [OF assms r, of "k y"] eq by simp
      then show ?thesis by (simp add: eq_commute)
    qed
  qed
qed

lemma Array_sort_Nil: "Array_sort cmp [] = []"
  by (simp add: Array_sort_def CountAndMakeRun_def)

lemma Array_sort_single: "Array_sort cmp [x] = [x]"
  by (simp add: Array_sort_def CountAndMakeRun_def)

lemma length_Array_sort: "length (Array_sort cmp xs) = length xs"
  by (metis mset_Array_sort size_mset)

lemma set_Array_sort: "set (Array_sort cmp xs) = set xs"
  by (metis mset_Array_sort set_mset_mset)

text \<open>
  The model of the sort is the only choice an engine has on such a comparator: every
  rearrangement of the array that is ordered by the key and keeps the elements of equal
  key in their order is the one computed here.
\<close>

lemma Array_sort_unique:
  assumes "\<And>a b. a \<in> set xs \<Longrightarrow> b \<in> set xs \<Longrightarrow> negative (cmp a b) = ((k a :: int) < k b)"
    and "mset ys = mset xs"
    and "sorted (map k ys)"
    and "\<And>x. x \<in> set ys \<Longrightarrow> filter (\<lambda>y. k x = k y) ys = filter (\<lambda>y. k x = k y) xs"
  shows "Array_sort cmp xs = ys"
proof -
  have "Array_sort cmp xs = sort_key k xs"
    by (rule Array_sort_sort_key) (rule assms(1))
  also have "\<dots> = ys"
    by (rule properties_for_sort_key) (use assms(2-4) in auto)
  finally show ?thesis .
qed

lemma negative_byDate:
  assumes "D (date a) \<noteq> None" and "D (date b) \<noteq> None"
  shows "negative (byDate D a b) = (time_of D (date a) < time_of D (date b))"
  using assms by (auto simp: negative_def byDate_def date_diff_def time_of_def)

lemma chartData_sort_key:
  assumes "\<forall>p \<in> set (H @ F). D (date p) \<noteq> None"
  shows "chartData D H F = sort_key (\<lambda>p. time_of D (date p)) (H @ F)"
  unfolding chartData_def
  by (rule Array_sort_sort_key) (use assms in \<open>auto simp: negative_byDate\<close>)

lemma date_le_time_of:
  assumes "D (date a) \<noteq> None" and "D (date b) \<noteq> None"
  shows "date_le D a b = (time_of D (date a) \<le> time_of D (date b))"
  using assms by (auto simp: date_le_def time_of_def)

lemma sorted_wrt_date_le:
  assumes "\<forall>p \<in> set xs. D (date p) \<noteq> None"
    and "sorted (map (\<lambda>p. time_of D (date p)) xs)"
  shows "sorted_wrt (date_le D) xs"
  using assms by (induction xs) (auto simp: date_le_time_of)

text \<open>Every result of a \<^verbatim>\<open>map\<close> that returns comes from an element.\<close>

lemma mapE_result:
  "mapE f xs = Inr ys \<Longrightarrow> y \<in> set ys \<Longrightarrow> \<exists>x \<in> set xs. f x = Inr y"
proof (induction xs arbitrary: ys)
  case Nil
  then show ?case by simp
next
  case (Cons x xs)
  from Cons.prems(1) obtain z zs where z: "f x = Inr z" and zs: "mapE f xs = Inr zs"
    and ys: "ys = z # zs"
    by (auto split: sum.splits)
  show ?case
  proof (cases "y = z")
    case True
    with z show ?thesis by auto
  next
    case False
    with Cons.prems(2) ys have "y \<in> set zs" by simp
    with Cons.IH [OF zs] show ?thesis by auto
  qed
qed

lemma Array_map_result:
  "Array_map f v = Inr ys \<Longrightarrow> y \<in> set ys \<Longrightarrow> \<exists>x. f x = Inr y"
  by (cases v) (auto simp: Array_map_def dest: mapE_result)

lemma Array_map_element:
  "Array_map f v = Inr ys \<Longrightarrow> y \<in> set ys \<Longrightarrow> \<exists>x \<in> set (elements v). f x = Inr y"
  by (cases v) (auto simp: Array_map_def elements_def dest: mapE_result)

lemma elements_nullish_or: "elements (nullish_or v (JArr [])) = elements v"
  by (cases v) (simp_all add: nullish_or_def is_nullish_def elements_def)

section \<open>The merged series\<close>

text \<open>
  C1. The merged series has as many points as the history and the forecast together and
  holds exactly their points, each as often as the two hold it (none dropped, merged or
  deduplicated), whatever the dates are; when the date of every point is valid, the
  series is non-decreasing by date.
\<close>

theorem chartData_length_sorted:
  "length (chartData D H F) = length H + length F \<and>
   mset (chartData D H F) = mset H + mset F \<and>
   ((\<forall>p \<in> set (H @ F). D (date p) \<noteq> None) \<longrightarrow> sorted_wrt (date_le D) (chartData D H F))"
proof (intro conjI impI)
  show "length (chartData D H F) = length H + length F"
    by (simp add: chartData_def length_Array_sort)
next
  show "mset (chartData D H F) = mset H + mset F"
    by (simp add: chartData_def mset_Array_sort)
next
  assume valid: "\<forall>p \<in> set (H @ F). D (date p) \<noteq> None"
  have eq: "chartData D H F = sort_key (\<lambda>p. time_of D (date p)) (H @ F)"
    by (rule chartData_sort_key [OF valid])
  have "sorted (map (\<lambda>p. time_of D (date p)) (chartData D H F))"
    unfolding eq by (rule sorted_sort_key)
  moreover have "\<forall>p \<in> set (chartData D H F). D (date p) \<noteq> None"
    using valid by (simp add: chartData_def set_Array_sort)
  ultimately show "sorted_wrt (date_le D) (chartData D H F)"
    by (rule sorted_wrt_date_le [rotated])
qed

text \<open>
  A history point and a forecast point on the same day, and an earlier forecast point:
  the three points are all in the series.
\<close>

theorem chartData_length_sorted_witness:
  "example_Date (date (point ''2024-01-02'' 2 ''history'')) = Some 1704153600000 \<and>
   example_Date (date (point ''2024-01-01'' 1 ''forecast'')) = Some 1704067200000 \<and>
   example_Date (date (point ''2024-01-02'' 3 ''forecast'')) = Some 1704153600000 \<and>
   chartData example_Date [point ''2024-01-02'' 2 ''history'']
       [point ''2024-01-01'' 1 ''forecast'', point ''2024-01-02'' 3 ''forecast'']
     = [point ''2024-01-01'' 1 ''forecast'', point ''2024-01-02'' 2 ''history'',
        point ''2024-01-02'' 3 ''forecast''] \<and>
   length (chartData example_Date [point ''2024-01-02'' 2 ''history'']
       [point ''2024-01-01'' 1 ''forecast'', point ''2024-01-02'' 3 ''forecast'']) = 3 \<and>
   mset (chartData example_Date [point ''2024-01-02'' 2 ''history'']
       [point ''2024-01-01'' 1 ''forecast'', point ''2024-01-02'' 3 ''forecast''])
     = {#point ''2024-01-02'' 2 ''history'', point ''2024-01-01'' 1 ''forecast'',
         point ''2024-01-02'' 3 ''forecast''#} \<and>
   sorted_wrt (date_le example_Date)
     (chartData example_Date [point ''2024-01-02'' 2 ''history'']
       [point ''2024-01-01'' 1 ''forecast'', point ''2024-01-02'' 3 ''forecast''])"
proof -
  let ?H = "[point ''2024-01-02'' 2 ''history'']"
  let ?F = "[point ''2024-01-01'' 1 ''forecast'', point ''2024-01-02'' 3 ''forecast'']"
  have dates: "example_Date (date (point ''2024-01-02'' 2 ''history'')) = Some 1704153600000"
    "example_Date (date (point ''2024-01-01'' 1 ''forecast'')) = Some 1704067200000"
    "example_Date (date (point ''2024-01-02'' 3 ''forecast'')) = Some 1704153600000"
    by (simp_all add: point_def example_Date_def)
  then have valid: "\<forall>p \<in> set (?H @ ?F). example_Date (date p) \<noteq> None"
    by simp
  have val: "chartData example_Date ?H ?F
     = [point ''2024-01-01'' 1 ''forecast'', point ''2024-01-02'' 2 ''history'',
        point ''2024-01-02'' 3 ''forecast'']"
    by code_simp
  from chartData_length_sorted [of example_Date ?H ?F] valid
  have "length (chartData example_Date ?H ?F) = 3"
    and "mset (chartData example_Date ?H ?F) = mset ?H + mset ?F"
    and "sorted_wrt (date_le example_Date) (chartData example_Date ?H ?F)"
    by simp_all
  with dates val show ?thesis by simp
qed

text \<open>
  Stability: when every date is valid, the points of the merged series that fall on one
  instant are the history points of that instant, in their order, followed by the
  forecast points of that instant, in theirs.
\<close>

lemma chartData_stable:
  assumes "\<forall>p \<in> set (H @ F). D (date p) \<noteq> None"
  shows "filter (\<lambda>p. D (date p) = Some t) (chartData D H F) =
         filter (\<lambda>p. D (date p) = Some t) H @ filter (\<lambda>p. D (date p) = Some t) F"
proof -
  let ?k = "\<lambda>p. time_of D (date p)"
  have same: "filter (\<lambda>p. D (date p) = Some t) xs = filter (\<lambda>p. ?k p = t) xs"
    if "set xs \<subseteq> set (H @ F)" for xs
  proof (intro filter_cong refl)
    fix p
    assume "p \<in> set xs"
    with that assms obtain s where "D (date p) = Some s" by fastforce
    then show "(D (date p) = Some t) = (?k p = t)" by (simp add: time_of_def)
  qed
  have eq: "chartData D H F = sort_key ?k (H @ F)"
    by (rule chartData_sort_key [OF assms])
  have "filter (\<lambda>p. D (date p) = Some t) (chartData D H F) = filter (\<lambda>p. ?k p = t) (sort_key ?k (H @ F))"
    unfolding eq by (rule same) simp
  also have "\<dots> = filter (\<lambda>p. ?k p = t) (H @ F)"
    by (rule sort_key_stable)
  also have "\<dots> = filter (\<lambda>p. D (date p) = Some t) (H @ F)"
    by (rule same [symmetric]) simp
  finally show ?thesis by simp
qed

lemma sorted_wrt_filter_iff:
  "sorted_wrt R (filter P xs) = sorted_wrt (\<lambda>a b. P a \<longrightarrow> P b \<longrightarrow> R a b) xs"
  by (induction xs) auto

lemma sorted_wrt_all:
  "(\<And>x y. x \<in> set xs \<Longrightarrow> y \<in> set xs \<Longrightarrow> R x y) \<Longrightarrow> sorted_wrt R xs"
  by (induction xs) auto

text \<open>
  C10, as the code has it. When every date is valid, a history point comes before every
  forecast point of the same instant: the points of one instant are the history points
  of that instant followed by its forecast points, and nowhere in the merged series does
  a forecast point stand before a history point of the same instant. (The history points
  are those tagged \<^verbatim>\<open>'history'\<close>, the forecast points those tagged \<^verbatim>\<open>'forecast'\<close>, as
  the two normalisations tag them.)
\<close>

theorem chartData_history_before_forecast:
  assumes valid: "\<forall>p \<in> set (H @ F). D (date p) \<noteq> None"
    and hist: "\<forall>p \<in> set H. type' p = ''history''"
    and fore: "\<forall>p \<in> set F. type' p = ''forecast''"
  shows "filter (\<lambda>p. D (date p) = Some t) (chartData D H F) =
           filter (\<lambda>p. D (date p) = Some t) H @ filter (\<lambda>p. D (date p) = Some t) F \<and>
         sorted_wrt (\<lambda>a b. \<not> (D (date a) = D (date b) \<and> type' a = ''forecast'' \<and>
                                type' b = ''history''))
           (chartData D H F)"
proof
  show "filter (\<lambda>p. D (date p) = Some t) (chartData D H F) =
           filter (\<lambda>p. D (date p) = Some t) H @ filter (\<lambda>p. D (date p) = Some t) F"
    by (rule chartData_stable [OF valid])
next
  let ?out = "chartData D H F"
  let ?R = "\<lambda>x y. \<not> (type' x = ''forecast'' \<and> type' y = ''history'')"
  show "sorted_wrt (\<lambda>a b. \<not> (D (date a) = D (date b) \<and> type' a = ''forecast'' \<and>
                                type' b = ''history'')) ?out"
    unfolding sorted_wrt_iff_nth_less
  proof (intro allI impI notI)
    fix i j
    assume ij: "i < j" and j: "j < length ?out"
      and bad: "D (date (?out ! i)) = D (date (?out ! j)) \<and> type' (?out ! i) = ''forecast'' \<and>
                type' (?out ! j) = ''history''"
    from ij j have "?out ! i \<in> set ?out" by simp
    then have "?out ! i \<in> set (H @ F)"
      by (simp add: chartData_def set_Array_sort)
    with valid obtain s where s: "D (date (?out ! i)) = Some s" by fastforce
    let ?P = "\<lambda>p. D (date p) = Some s"
    have "sorted_wrt ?R (filter ?P H @ filter ?P F)"
      unfolding sorted_wrt_append
    proof (intro conjI ballI)
      show "sorted_wrt ?R (filter ?P H)"
        by (rule sorted_wrt_all) (use hist in auto)
      show "sorted_wrt ?R (filter ?P F)"
        by (rule sorted_wrt_all) (use fore in auto)
      show "?R x y" if "x \<in> set (filter ?P H)" for x y
        using that hist by auto
    qed
    then have "sorted_wrt ?R (filter ?P ?out)"
      by (simp add: chartData_stable [OF valid])
    then have "sorted_wrt (\<lambda>a b. ?P a \<longrightarrow> ?P b \<longrightarrow> ?R a b) ?out"
      by (simp add: sorted_wrt_filter_iff)
    with ij j have "?P (?out ! i) \<longrightarrow> ?P (?out ! j) \<longrightarrow> ?R (?out ! i) (?out ! j)"
      unfolding sorted_wrt_iff_nth_less by blast
    with s bad show False by simp
  qed
qed

theorem chartData_history_before_forecast_witness:
  "example_Date (date (point ''2024-01-02'' 2 ''history'')) = Some 1704153600000 \<and>
   example_Date (date (point ''2024-01-02'' 3 ''forecast'')) = Some 1704153600000 \<and>
   example_Date (date (point ''2024-01-01'' 1 ''forecast'')) = Some 1704067200000 \<and>
   type' (point ''2024-01-02'' 2 ''history'') = ''history'' \<and>
   type' (point ''2024-01-02'' 3 ''forecast'') = ''forecast'' \<and>
   type' (point ''2024-01-01'' 1 ''forecast'') = ''forecast'' \<and>
   chartData example_Date [point ''2024-01-02'' 2 ''history'']
       [point ''2024-01-02'' 3 ''forecast'', point ''2024-01-01'' 1 ''forecast'']
     = [point ''2024-01-01'' 1 ''forecast'', point ''2024-01-02'' 2 ''history'',
        point ''2024-01-02'' 3 ''forecast''] \<and>
   filter (\<lambda>p. example_Date (date p) = Some 1704153600000)
     (chartData example_Date [point ''2024-01-02'' 2 ''history'']
       [point ''2024-01-02'' 3 ''forecast'', point ''2024-01-01'' 1 ''forecast''])
     = [point ''2024-01-02'' 2 ''history'', point ''2024-01-02'' 3 ''forecast''] \<and>
   sorted_wrt (\<lambda>a b. \<not> (example_Date (date a) = example_Date (date b) \<and>
                           type' a = ''forecast'' \<and> type' b = ''history''))
     (chartData example_Date [point ''2024-01-02'' 2 ''history'']
       [point ''2024-01-02'' 3 ''forecast'', point ''2024-01-01'' 1 ''forecast''])"
proof -
  let ?H = "[point ''2024-01-02'' 2 ''history'']"
  let ?F = "[point ''2024-01-02'' 3 ''forecast'', point ''2024-01-01'' 1 ''forecast'']"
  have dates: "example_Date (date (point ''2024-01-02'' 2 ''history'')) = Some 1704153600000"
    "example_Date (date (point ''2024-01-02'' 3 ''forecast'')) = Some 1704153600000"
    "example_Date (date (point ''2024-01-01'' 1 ''forecast'')) = Some 1704067200000"
    by (simp_all add: point_def example_Date_def)
  then have valid: "\<forall>p \<in> set (?H @ ?F). example_Date (date p) \<noteq> None"
    by simp
  have types: "type' (point ''2024-01-02'' 2 ''history'') = ''history''"
    "type' (point ''2024-01-02'' 3 ''forecast'') = ''forecast''"
    "type' (point ''2024-01-01'' 1 ''forecast'') = ''forecast''"
    by (simp_all add: point_def)
  then have hist: "\<forall>p \<in> set ?H. type' p = ''history''"
    and fore: "\<forall>p \<in> set ?F. type' p = ''forecast''"
    by simp_all
  have val: "chartData example_Date ?H ?F
     = [point ''2024-01-01'' 1 ''forecast'', point ''2024-01-02'' 2 ''history'',
        point ''2024-01-02'' 3 ''forecast'']"
    by code_simp
  from chartData_history_before_forecast [OF valid hist fore, of 1704153600000]
  have "filter (\<lambda>p. example_Date (date p) = Some 1704153600000) (chartData example_Date ?H ?F)
          = [point ''2024-01-02'' 2 ''history'', point ''2024-01-02'' 3 ''forecast'']"
    and "sorted_wrt (\<lambda>a b. \<not> (example_Date (date a) = example_Date (date b) \<and>
                           type' a = ''forecast'' \<and> type' b = ''history''))
          (chartData example_Date ?H ?F)"
    by (simp_all add: dates)
  with dates types val show ?thesis by simp
qed

text \<open>
  C10 as stated fails: it holds only when every date of the series is valid. Five log
  entries, the fourth with a date that does not parse, and two forecast points. The
  history is as its own sort leaves it (first line). In the merged series the forecast
  point of 2024-03-01 stands before the history point of 2024-03-01: the search for its
  place compares it with the history point of 2024-03-05 and goes left, and never
  reaches the history point of its own day, which the invalid date had kept at the end.
\<close>

theorem chartData_invalid_date_counterexample:
  "Array_sort (byDate example_Date)
     [point ''2024-01-01'' 1 ''history'', point ''2024-01-02'' 2 ''history'',
      point ''2024-03-05'' 3 ''history'', point ''not-a-date'' 4 ''history'',
      point ''2024-03-01'' 5 ''history'']
   = [point ''2024-01-01'' 1 ''history'', point ''2024-01-02'' 2 ''history'',
      point ''2024-03-05'' 3 ''history'', point ''not-a-date'' 4 ''history'',
      point ''2024-03-01'' 5 ''history''] \<and>
   chartData example_Date
     [point ''2024-01-01'' 1 ''history'', point ''2024-01-02'' 2 ''history'',
      point ''2024-03-05'' 3 ''history'', point ''not-a-date'' 4 ''history'',
      point ''2024-03-01'' 5 ''history'']
     [point ''2024-01-01'' 6 ''forecast'', point ''2024-03-01'' 7 ''forecast'']
   = [point ''2024-01-01'' 1 ''history'', point ''2024-01-01'' 6 ''forecast'',
      point ''2024-01-02'' 2 ''history'', point ''2024-03-01'' 7 ''forecast'',
      point ''2024-03-05'' 3 ''history'', point ''not-a-date'' 4 ''history'',
      point ''2024-03-01'' 5 ''history''] \<and>
   example_Date (date (point ''2024-03-01'' 7 ''forecast'')) = Some 1709251200000 \<and>
   example_Date (date (point ''2024-03-01'' 5 ''history'')) = Some 1709251200000 \<and>
   \<not> sorted_wrt (\<lambda>a b. \<not> (example_Date (date a) = example_Date (date b) \<and>
                             type' a = ''forecast'' \<and> type' b = ''history''))
       (chartData example_Date
          [point ''2024-01-01'' 1 ''history'', point ''2024-01-02'' 2 ''history'',
           point ''2024-03-05'' 3 ''history'', point ''not-a-date'' 4 ''history'',
           point ''2024-03-01'' 5 ''history'']
          [point ''2024-01-01'' 6 ''forecast'', point ''2024-03-01'' 7 ''forecast''])"
  by code_simp

text \<open>The two normalisations tag their points.\<close>

lemma historyData_type:
  assumes "historyData D S logsData = Inr ps" and "p \<in> set ps"
  shows "type' p = ''history''"
proof -
  from assms obtain ps' where m: "Array_map (historyPoint S) (nullish_or logsData (JArr [])) = Inr ps'"
    and "p \<in> set ps'"
    by (auto simp: historyData_def set_Array_sort split: sum.splits)
  from Array_map_result [OF m this(2)] obtain entry where "historyPoint S entry = Inr p" ..
  then show ?thesis
    by (auto simp: historyPoint_def split: sum.splits)
qed

lemma forecastPoints_type:
  assumes "forecastPoints S fc = Inr qs" and "q \<in> set qs"
  shows "type' q = ''forecast''"
proof -
  from assms obtain f where "forecastPoint S f = Inr q"
    unfolding forecastPoints_def by (blast dest: Array_map_result)
  then show ?thesis
    by (auto simp: forecastPoint_def split: sum.splits)
qed

section \<open>The normalised points\<close>

lemma or_num_not_NaN: "b \<noteq> NaN \<Longrightarrow> or_num a b \<noteq> NaN"
  by (cases a) (auto simp: or_num_def)

lemma historyPoint_fields:
  assumes "historyPoint S entry = Inr p"
  shows "hours p \<noteq> NaN" and "min' p = hours p" and "max' p = hours p"
  using assms by (auto simp: historyPoint_def or_num_not_NaN split: sum.splits)

lemma forecastPoint_fields:
  assumes "forecastPoint S f = Inr q"
  shows "hours q \<noteq> NaN" and "min' q \<noteq> NaN" and "max' q \<noteq> NaN"
  using assms by (auto simp: forecastPoint_def or_num_not_NaN split: sum.splits)

text \<open>
  \<^verbatim>\<open>a || 0\<close> is finite unless \<open>a\<close> is infinite, and \<^verbatim>\<open>a || b || 0\<close> is finite when
  neither \<open>a\<close> nor \<open>b\<close> is infinite.
\<close>

lemma is_finite_or_num_zero: "is_finite (or_num a (Finite 0)) = (\<not> infinite_num a)"
  by (cases a) (simp_all add: or_num_def)

lemma infinite_or_num:
  "\<not> infinite_num a \<Longrightarrow> \<not> infinite_num b \<Longrightarrow> \<not> infinite_num (or_num a b)"
  by (simp add: or_num_def)

lemma historyPoint_finite:
  assumes "historyPoint S entry = Inr p"
  shows "is_finite (hours p) = (\<not> infinite_num (Number S (get_prop entry ''duration'')))"
  using assms by (auto simp: historyPoint_def is_finite_or_num_zero split: sum.splits)

lemma forecastPoint_finite:
  assumes "forecastPoint S f = Inr q"
    and "\<not> infinite_num (Number S (get_prop f ''hours''))"
  shows "is_finite (hours q)"
    and "\<not> infinite_num (Number S (opt_prop (get_prop f ''range'') ''min'')) \<Longrightarrow> is_finite (min' q)"
    and "\<not> infinite_num (Number S (opt_prop (get_prop f ''range'') ''max'')) \<Longrightarrow> is_finite (max' q)"
  using assms
  by (auto simp: forecastPoint_def is_finite_or_num_zero infinite_or_num split: sum.splits)

text \<open>
  C2, as the code has it. The \<open>hours\<close>, \<open>min\<close> and \<open>max\<close> of every point that the two
  normalisations produce are numbers other than \<open>NaN\<close>, and a history point has
  \<open>min = max = hours\<close>. Each point comes from an entry of the input, and its numbers are
  finite unless a coerced field of that entry is infinite: the hours of a history point
  are finite exactly when the coerced duration is not infinite; the hours of a forecast
  point are finite when the coerced hours are not infinite, and then its \<open>min\<close> (its
  \<open>max\<close>) is finite when the coerced \<open>range.min\<close> (\<open>range.max\<close>) is not infinite.
\<close>

theorem normalized_points_numbers:
  "(historyData D S logsData = Inr ps \<longrightarrow>
      (\<forall>p \<in> set ps. hours p \<noteq> NaN \<and> min' p = hours p \<and> max' p = hours p \<and>
         (\<exists>entry \<in> set (elements logsData). historyPoint S entry = Inr p \<and>
            is_finite (hours p) = (\<not> infinite_num (Number S (get_prop entry ''duration'')))))) \<and>
   (forecastPoints S fc = Inr qs \<longrightarrow>
      (\<forall>q \<in> set qs. hours q \<noteq> NaN \<and> min' q \<noteq> NaN \<and> max' q \<noteq> NaN \<and>
         (\<exists>f \<in> set (elements fc). forecastPoint S f = Inr q \<and>
            (\<not> infinite_num (Number S (get_prop f ''hours'')) \<longrightarrow>
               is_finite (hours q) \<and>
               (\<not> infinite_num (Number S (opt_prop (get_prop f ''range'') ''min'')) \<longrightarrow>
                  is_finite (min' q)) \<and>
               (\<not> infinite_num (Number S (opt_prop (get_prop f ''range'') ''max'')) \<longrightarrow>
                  is_finite (max' q))))))"
proof (intro conjI impI ballI)
  fix p
  assume "historyData D S logsData = Inr ps" and p: "p \<in> set ps"
  then obtain ps' where m: "Array_map (historyPoint S) (nullish_or logsData (JArr [])) = Inr ps'"
    and "ps = Array_sort (byDate D) ps'"
    by (auto simp: historyData_def split: sum.splits)
  with p have "p \<in> set ps'" by (simp add: set_Array_sort)
  from Array_map_element [OF m this] obtain entry
    where e: "entry \<in> set (elements logsData)" and hp: "historyPoint S entry = Inr p"
    by (auto simp: elements_nullish_or)
  from hp show "hours p \<noteq> NaN" and "min' p = hours p" and "max' p = hours p"
    by (rule historyPoint_fields)+
  from e hp historyPoint_finite [OF hp]
  show "\<exists>entry \<in> set (elements logsData). historyPoint S entry = Inr p \<and>
            is_finite (hours p) = (\<not> infinite_num (Number S (get_prop entry ''duration'')))"
    by blast
next
  fix q
  assume "forecastPoints S fc = Inr qs" and "q \<in> set qs"
  then obtain f where e: "f \<in> set (elements fc)" and fp: "forecastPoint S f = Inr q"
    unfolding forecastPoints_def by (auto dest: Array_map_element simp: elements_nullish_or)
  from fp show "hours q \<noteq> NaN" and "min' q \<noteq> NaN" and "max' q \<noteq> NaN"
    by (rule forecastPoint_fields)+
  from e fp forecastPoint_finite [OF fp]
  show "\<exists>f \<in> set (elements fc). forecastPoint S f = Inr q \<and>
            (\<not> infinite_num (Number S (get_prop f ''hours'')) \<longrightarrow>
               is_finite (hours q) \<and>
               (\<not> infinite_num (Number S (opt_prop (get_prop f ''range'') ''min'')) \<longrightarrow>
                  is_finite (min' q)) \<and>
               (\<not> infinite_num (Number S (opt_prop (get_prop f ''range'') ''max'')) \<longrightarrow>
                  is_finite (max' q)))"
    by blast
qed

theorem normalized_points_numbers_witness:
  "historyData example_Date example_Number
     (JArr [JObj [(''date'', JStr ''2024-01-01''), (''duration'', JStr ''2'')],
            JObj [(''date'', JStr ''2024-01-02''), (''duration'', JStr ''abc'')]])
     = Inr [\<lparr>date = JStr ''2024-01-01'', hours = Finite 2, min' = Finite 2, max' = Finite 2,
              type' = ''history''\<rparr>,
            \<lparr>date = JStr ''2024-01-02'', hours = Finite 0, min' = Finite 0, max' = Finite 0,
              type' = ''history''\<rparr>] \<and>
   forecastPoints example_Number
     (JArr [JObj [(''date'', JStr ''2024-01-02''), (''hours'', JNum (Finite 3)),
                  (''range'', JObj [(''min'', JNum (Finite 2)), (''max'', JNum (Finite 4))])]])
     = Inr [\<lparr>date = JStr ''2024-01-02'', hours = Finite 3, min' = Finite 2, max' = Finite 4,
              type' = ''forecast''\<rparr>] \<and>
   Finite 2 \<noteq> NaN \<and> Finite 0 \<noteq> NaN \<and> Finite 3 \<noteq> NaN \<and> Finite 4 \<noteq> NaN \<and>
   is_finite (Finite 2) \<and> is_finite (Finite 0) \<and> is_finite (Finite 3) \<and> is_finite (Finite 4) \<and>
   \<not> infinite_num (Number example_Number (JStr ''2'')) \<and>
   \<not> infinite_num (Number example_Number (JStr ''abc'')) \<and>
   \<not> infinite_num (Number example_Number (JNum (Finite 3)))"
proof -
  have h: "historyData example_Date example_Number
     (JArr [JObj [(''date'', JStr ''2024-01-01''), (''duration'', JStr ''2'')],
            JObj [(''date'', JStr ''2024-01-02''), (''duration'', JStr ''abc'')]])
     = Inr [\<lparr>date = JStr ''2024-01-01'', hours = Finite 2, min' = Finite 2, max' = Finite 2,
              type' = ''history''\<rparr>,
            \<lparr>date = JStr ''2024-01-02'', hours = Finite 0, min' = Finite 0, max' = Finite 0,
              type' = ''history''\<rparr>]"
    by code_simp
  have f: "forecastPoints example_Number
     (JArr [JObj [(''date'', JStr ''2024-01-02''), (''hours'', JNum (Finite 3)),
                  (''range'', JObj [(''min'', JNum (Finite 2)), (''max'', JNum (Finite 4))])]])
     = Inr [\<lparr>date = JStr ''2024-01-02'', hours = Finite 3, min' = Finite 2, max' = Finite 4,
              type' = ''forecast''\<rparr>]"
    by code_simp
  from normalized_points_numbers [where D = example_Date and S = example_Number
      and logsData = "JArr [JObj [(''date'', JStr ''2024-01-01''), (''duration'', JStr ''2'')],
            JObj [(''date'', JStr ''2024-01-02''), (''duration'', JStr ''abc'')]]"
      and ps = "[\<lparr>date = JStr ''2024-01-01'', hours = Finite 2, min' = Finite 2, max' = Finite 2,
              type' = ''history''\<rparr>,
            \<lparr>date = JStr ''2024-01-02'', hours = Finite 0, min' = Finite 0, max' = Finite 0,
              type' = ''history''\<rparr>]"
      and fc = "JArr [JObj [(''date'', JStr ''2024-01-02''), (''hours'', JNum (Finite 3)),
                  (''range'', JObj [(''min'', JNum (Finite 2)), (''max'', JNum (Finite 4))])]]"
      and qs = "[\<lparr>date = JStr ''2024-01-02'', hours = Finite 3, min' = Finite 2, max' = Finite 4,
              type' = ''forecast''\<rparr>]"] h f
  show ?thesis by (simp add: example_Number_def)
qed

text \<open>
  C2 as stated fails: a duration that is infinite (the JSON number \<^verbatim>\<open>1e999\<close> parses to
  \<^verbatim>\<open>Infinity\<close>) is truthy and passes \<^verbatim>\<open>Number(log.duration) || 0\<close> unchanged.
\<close>

theorem normalized_points_finite_counterexample:
  "historyData example_Date example_Number
     (JArr [JObj [(''date'', JStr ''2024-01-01''), (''duration'', JNum Infinity)]])
     = Inr [\<lparr>date = JStr ''2024-01-01'', hours = Infinity, min' = Infinity, max' = Infinity,
              type' = ''history''\<rparr>] \<and>
   \<not> is_finite (hours \<lparr>date = JStr ''2024-01-01'', hours = Infinity, min' = Infinity,
                        max' = Infinity, type' = ''history''\<rparr>)"
  by (simp add: historyData_def Array_map_def nullish_or_def is_nullish_def historyPoint_def
      dot_def or_num_def Array_sort_single)

text \<open>
  C3. A forecast point whose range has the minimum \<open>0\<close>: \<^verbatim>\<open>Number(f.range?.min)\<close> is
  the valid number \<open>0\<close>, which is falsy, so \<^verbatim>\<open>||\<close> goes on to the hours and the
  normalised minimum is \<open>3\<close>, not \<open>0\<close>.
\<close>

theorem forecastPoint_zero_min:
  "forecastPoint S
     (JObj [(''date'', d), (''hours'', JNum (Finite 3)),
            (''range'', JObj [(''min'', JNum (Finite 0)), (''max'', JNum (Finite 4))])])
   = Inr \<lparr>date = d, hours = Finite 3, min' = Finite 3, max' = Finite 4, type' = ''forecast''\<rparr>"
  by (simp add: forecastPoint_def dot_def is_nullish_def opt_prop_def or_num_def)

text \<open>
  What the code does for a bound: the coerced bound when it is neither \<open>NaN\<close> nor zero.
\<close>

lemma forecastPoint_min_truthy:
  assumes "forecastPoint S f = Inr q"
    and "truthy_num (Number S (opt_prop (get_prop f ''range'') ''min''))"
  shows "min' q = Number S (opt_prop (get_prop f ''range'') ''min'')"
  using assms by (auto simp: forecastPoint_def or_num_def split: sum.splits)

section \<open>The summary card\<close>

text \<open>
  C4. A confidence of exactly \<open>0\<close> is a valid number, and it is falsy: the test
  \<^verbatim>\<open>forecast?.confidence ? ... : ...\<close> takes the branch of the dash, on the card of a
  forecast that has a point.
\<close>

theorem confidencePercent_zero:
  "confidencePercent S (JObj ((''confidence'', JNum (Finite 0)) # kvs)) = None \<and>
   summarize example_Date S
     (JObj [(''confidence'', JNum (Finite 0)),
            (''forecast'', JArr [JObj [(''date'', JStr ''2024-01-02''),
                                       (''hours'', JNum (Finite 3))]])])
   = Inr (JObj [(''date'', JStr ''2024-01-02''), (''hours'', JNum (Finite 3))], None)"
  by (simp add: confidencePercent_def summarize_def nextForecast_def opt_prop_def
      nullish_or_def is_nullish_def Array_sort_values_def Array_sortE_def CountAndMakeRunE_def)

text \<open>
  For every other finite confidence the note is the rounded percentage (of the exact
  product: the rounding of the double product is left out of the model).
\<close>

lemma confidencePercent_nonzero:
  assumes "r \<noteq> 0"
  shows "confidencePercent S (JObj ((''confidence'', JNum (Finite r)) # kvs))
           = Some (Finite (of_int (round (r * 100))))"
  using assms by (simp add: confidencePercent_def opt_prop_def is_nullish_def round_def)

text \<open>The card of the example bundle: its point, and a confidence of 80 percent.\<close>

lemma summarize_example:
  "summarize example_Date example_Number example_bundle =
     Inr (JObj [(''date'', JStr ''2024-01-02''), (''hours'', JNum (Finite 3)),
                (''range'', JObj [(''min'', JNum (Finite 2)), (''max'', JNum (Finite 4))])],
          Some (Finite 80))"
  by (simp add: summarize_def nextForecast_def confidencePercent_def opt_prop_def
      nullish_or_def is_nullish_def example_bundle_def Array_sort_values_def Array_sortE_def
      CountAndMakeRunE_def)

text \<open>
  C7. The card shows no point and no confidence when the bundle is absent, when its
  \<open>forecast\<close> is absent, and when its \<open>forecast\<close> is the empty array.
\<close>

theorem summarize_absent:
  assumes "is_nullish bundle \<or> is_nullish (opt_prop bundle ''forecast'') \<or>
           opt_prop bundle ''forecast'' = JArr []"
  shows "summarize D S bundle = Inr (JNull, None)"
proof -
  have "opt_prop bundle ''forecast'' = JArr [] \<or> is_nullish (opt_prop bundle ''forecast'')"
    using assms by (auto simp: opt_prop_def is_nullish_def)
  then have "nextForecast D bundle = Inr JNull"
    by (auto simp: nextForecast_def nullish_or_def)
  then show ?thesis by (simp add: summarize_def)
qed

theorem summarize_absent_witness:
  "is_nullish JNull \<and>
   summarize example_Date example_Number JNull = Inr (JNull, None) \<and>
   is_nullish (opt_prop (JObj [(''confidence'', JNum (Finite (4 / 5)))]) ''forecast'') \<and>
   summarize example_Date example_Number (JObj [(''confidence'', JNum (Finite (4 / 5)))])
     = Inr (JNull, None) \<and>
   opt_prop (JObj [(''forecast'', JArr []), (''confidence'', JNum (Finite (4 / 5)))]) ''forecast''
     = JArr [] \<and>
   summarize example_Date example_Number
     (JObj [(''forecast'', JArr []), (''confidence'', JNum (Finite (4 / 5)))]) = Inr (JNull, None)"
proof -
  have a: "is_nullish JNull"
    by (simp add: is_nullish_def)
  have b: "is_nullish (opt_prop (JObj [(''confidence'', JNum (Finite (4 / 5)))]) ''forecast'')"
    by (simp add: opt_prop_def is_nullish_def)
  have c: "opt_prop (JObj [(''forecast'', JArr []), (''confidence'', JNum (Finite (4 / 5)))])
             ''forecast'' = JArr []"
    by (simp add: opt_prop_def is_nullish_def)
  from a have 1: "summarize example_Date example_Number JNull = Inr (JNull, None)"
    by (intro summarize_absent) simp
  from b have 2: "summarize example_Date example_Number
      (JObj [(''confidence'', JNum (Finite (4 / 5)))]) = Inr (JNull, None)"
    by (intro summarize_absent) simp
  from c have 3: "summarize example_Date example_Number
      (JObj [(''forecast'', JArr []), (''confidence'', JNum (Finite (4 / 5)))]) = Inr (JNull, None)"
    by (intro summarize_absent) simp
  from a b c 1 2 3 show ?thesis by blast
qed

section \<open>Formatting an unparseable date\<close>

text \<open>
  C6. For an input that does not parse, \<^verbatim>\<open>formatDate\<close> returns the string
  \<^verbatim>\<open>Invalid Date\<close>: nothing is thrown, so the \<^verbatim>\<open>catch\<close> block that would return the
  input is never entered.
\<close>

theorem formatDate_unparseable:
  assumes "D dateStr = None"
  shows "formatDate D fmt dateStr = JStr ''Invalid Date''"
  using assms by (simp add: formatDate_def formatDate_try_def toLocaleDateString_def)

theorem formatDate_unparseable_witness:
  "example_Date (JStr ''not-a-date'') = None \<and>
   formatDate example_Date (\<lambda>t. ''Jan 1'') (JStr ''not-a-date'') = JStr ''Invalid Date'' \<and>
   JStr ''Invalid Date'' \<noteq> JStr ''not-a-date''"
proof -
  have n: "example_Date (JStr ''not-a-date'') = None"
    by (simp add: example_Date_def)
  from formatDate_unparseable [where D = example_Date and dateStr = "JStr ''not-a-date''"
      and fmt = "\<lambda>t. ''Jan 1''"] n
  show ?thesis by simp
qed

text \<open>The function never returns its input in place of a formatted string.\<close>

lemma formatDate_is_string:
  "formatDate D fmt dateStr = JStr (toLocaleDateString fmt (D dateStr))"
  by (simp add: formatDate_def formatDate_try_def)

section \<open>The earliest forecast point\<close>

text \<open>A comparator that does not throw on the elements makes the two sorts agree.\<close>

lemma run_lengthE_total:
  assumes "\<And>a b. a \<in> insert prev (set xs) \<Longrightarrow> b \<in> insert prev (set xs) \<Longrightarrow> cmp a b = Inr (c a b)"
  shows "run_lengthE cmp desc prev xs = Inr (run_length c desc prev xs)"
  using assms
proof (induction xs arbitrary: prev)
  case Nil
  then show ?case by simp
next
  case (Cons x xs)
  have xp: "cmp x prev = Inr (c x prev)"
    by (rule Cons.prems) simp_all
  have "run_lengthE cmp desc x xs = Inr (run_length c desc x xs)"
  proof (rule Cons.IH)
    fix a b
    assume "a \<in> insert x (set xs)" and "b \<in> insert x (set xs)"
    then show "cmp a b = Inr (c a b)"
      by (intro Cons.prems) auto
  qed
  with xp show ?case by simp
qed

lemma CountAndMakeRunE_total:
  assumes "\<And>a b. a \<in> set xs \<Longrightarrow> b \<in> set xs \<Longrightarrow> cmp a b = Inr (c a b)"
  shows "CountAndMakeRunE cmp xs = Inr (CountAndMakeRun c xs)"
proof (cases xs)
  case Nil
  then show ?thesis by (simp add: CountAndMakeRunE_def CountAndMakeRun_def)
next
  case (Cons a ys)
  show ?thesis
  proof (cases ys)
    case Nil
    with Cons show ?thesis by (simp add: CountAndMakeRunE_def CountAndMakeRun_def)
  next
    case ys: (Cons b zs)
    have xs: "xs = a # b # zs" using Cons ys by simp
    have ba: "cmp b a = Inr (c b a)"
      by (rule assms) (simp_all add: xs)
    have "run_lengthE cmp desc b zs = Inr (run_length c desc b zs)" for desc
    proof (rule run_lengthE_total)
      fix x y
      assume "x \<in> insert b (set zs)" and "y \<in> insert b (set zs)"
      then show "cmp x y = Inr (c x y)"
        by (intro assms) (auto simp: xs)
    qed
    with ba show ?thesis
      by (simp add: CountAndMakeRunE_def CountAndMakeRun_def xs Let_def)
  qed
qed

lemma bsearchE_total:
  assumes "\<And>i. i < length arr \<Longrightarrow> cmp pivot (arr ! i) = Inr (c pivot (arr ! i))"
    and "right \<le> length arr"
  shows "bsearchE cmp pivot arr left right = Inr (bsearch c pivot arr left right)"
  using assms
proof (induction c pivot arr left right rule: bsearch.induct)
  case (1 c pivot arr left right)
  show ?case
  proof (cases "left < right")
    case False
    then show ?thesis
      by (subst bsearchE.simps, subst bsearch.simps) simp
  next
    case True
    let ?mid = "left + (right - left) div 2"
    from True "1.prems"(2) have mid: "?mid < right" "?mid < length arr" by auto
    have at_mid: "cmp pivot (arr ! ?mid) = Inr (c pivot (arr ! ?mid))"
      by (rule "1.prems"(1) [OF mid(2)])
    show ?thesis
    proof (cases "negative (c pivot (arr ! ?mid))")
      case neg: True
      have "bsearchE cmp pivot arr left ?mid = Inr (bsearch c pivot arr left ?mid)"
        by (rule "1.IH"(1) [OF True refl neg]) (use "1.prems"(1) mid in auto)
      with True neg at_mid show ?thesis
        by (subst bsearchE.simps, subst bsearch.simps) (simp add: Let_def)
    next
      case neg: False
      have "bsearchE cmp pivot arr (?mid + 1) right = Inr (bsearch c pivot arr (?mid + 1) right)"
        by (rule "1.IH"(2) [OF True refl neg]) (use "1.prems" in auto)
      with True neg at_mid show ?thesis
        by (subst bsearchE.simps, subst bsearch.simps) (simp add: Let_def)
    qed
  qed
qed

lemma BinaryInsertionSortE_total:
  assumes "\<And>a b. a \<in> set pre \<union> set rest \<Longrightarrow> b \<in> set pre \<union> set rest \<Longrightarrow> cmp a b = Inr (c a b)"
  shows "BinaryInsertionSortE cmp pre rest = Inr (BinaryInsertionSort c pre rest)"
  using assms
proof (induction rest arbitrary: pre)
  case Nil
  then show ?case by simp
next
  case (Cons pivot rest)
  let ?p = "bsearch c pivot pre 0 (length pre)"
  let ?pre = "take ?p pre @ pivot # drop ?p pre"
  have b: "bsearchE cmp pivot pre 0 (length pre) = Inr ?p"
  proof (rule bsearchE_total)
    show "cmp pivot (pre ! i) = Inr (c pivot (pre ! i))" if "i < length pre" for i
      using that by (intro Cons.prems) auto
  qed simp
  have set_pre: "set ?pre = insert pivot (set pre)"
  proof -
    have "set (take ?p pre) \<union> set (drop ?p pre) = set pre"
      by (metis append_take_drop_id set_append)
    then show ?thesis by auto
  qed
  have "BinaryInsertionSortE cmp ?pre rest = Inr (BinaryInsertionSort c ?pre rest)"
  proof (rule Cons.IH)
    fix a b
    assume "a \<in> set ?pre \<union> set rest" and "b \<in> set ?pre \<union> set rest"
    then show "cmp a b = Inr (c a b)"
      unfolding set_pre by (intro Cons.prems) auto
  qed
  with b show ?case by (simp add: Let_def)
qed

lemma Array_sortE_total:
  assumes "\<And>a b. a \<in> set xs \<Longrightarrow> b \<in> set xs \<Longrightarrow> cmp a b = Inr (c a b)"
  shows "Array_sortE cmp xs = Inr (Array_sort c xs)"
proof -
  obtain run rest where r: "CountAndMakeRun c xs = (run, rest)"
    by (cases "CountAndMakeRun c xs")
  from mset_CountAndMakeRun [OF r] have sets: "set run \<union> set rest = set xs"
    by (metis set_mset_mset set_mset_union)
  have "BinaryInsertionSortE cmp run rest = Inr (BinaryInsertionSort c run rest)"
  proof (rule BinaryInsertionSortE_total)
    fix a b
    assume "a \<in> set run \<union> set rest" and "b \<in> set run \<union> set rest"
    then show "cmp a b = Inr (c a b)"
      unfolding sets by (rule assms)
  qed
  with CountAndMakeRunE_total [of xs cmp c, OF assms] r show ?thesis
    by (simp add: Array_sortE_def Array_sort_def)
qed

lemma Array_sortE_rawByDate:
  assumes "\<forall>e \<in> set xs. \<not> is_nullish e \<and> D (get_prop e ''date'') \<noteq> None"
  shows "Array_sort_values (rawByDate D) xs = Inr (sort_key (raw_time D) xs)"
proof -
  let ?c = "\<lambda>a b. date_diff (D (get_prop a ''date'')) (D (get_prop b ''date''))"
  from assms have "\<forall>e \<in> set xs. e \<noteq> JUndefined"
    by (auto simp: is_nullish_def)
  then have defined: "filter (\<lambda>v. v \<noteq> JUndefined) xs = xs"
    and undefined: "filter (\<lambda>v. v = JUndefined) xs = []"
    by (simp_all add: filter_empty_conv)
  have "Array_sortE (rawByDate D) xs = Inr (Array_sort ?c xs)"
  proof (rule Array_sortE_total)
    fix a b
    assume "a \<in> set xs" and "b \<in> set xs"
    with assms have "\<not> is_nullish a" and "\<not> is_nullish b" by auto
    then show "rawByDate D a b = Inr (?c a b)"
      by (simp add: rawByDate_def dot_def)
  qed
  moreover have "Array_sort ?c xs = sort_key (raw_time D) xs"
  proof (rule Array_sort_sort_key)
    fix a b
    assume "a \<in> set xs" and "b \<in> set xs"
    with assms obtain s t where "D (get_prop a ''date'') = Some s"
      and "D (get_prop b ''date'') = Some t"
      by fastforce
    then show "negative (?c a b) = (raw_time D a < raw_time D b)"
      by (simp add: negative_def date_diff_def raw_time_def time_of_def)
  qed
  ultimately show ?thesis
    by (simp add: Array_sort_values_def defined undefined)
qed

text \<open>The head of a stable sort: a least element, and the first of the input with its key.\<close>

lemma sorted_map_hd_le:
  assumes "sorted (map k ys)" and "y \<in> set ys"
  shows "k (hd ys) \<le> (k y :: int)"
  using assms by (cases ys) auto

lemma filter_Cons_find: "filter P xs = m # ms \<Longrightarrow> find P xs = Some m"
  by (induction xs) (auto split: if_splits)

lemma hd_sort_key:
  fixes k :: "'a \<Rightarrow> int"
  assumes "xs \<noteq> []"
  defines "m \<equiv> hd (sort_key k xs)"
  shows "m \<in> set xs" and "k m = Min (k ` set xs)" and "find (\<lambda>e. k e = k m) xs = Some m"
proof -
  from assms(1) have ne: "sort_key k xs \<noteq> []"
    by (metis length_sort length_0_conv)
  then obtain rest where split: "sort_key k xs = m # rest"
    unfolding m_def by (cases "sort_key k xs") auto
  from ne have "m \<in> set (sort_key k xs)"
    unfolding m_def by (rule hd_in_set)
  then show in_xs: "m \<in> set xs" by simp
  have le: "k m \<le> k y" if "y \<in> set xs" for y
  proof -
    from that have "y \<in> set (sort_key k xs)" by simp
    with sorted_sort_key [of k xs] show ?thesis
      unfolding m_def by (rule sorted_map_hd_le)
  qed
  show "k m = Min (k ` set xs)"
  proof (rule sym, rule Min_eqI)
    show "finite (k ` set xs)" by simp
    show "k m \<in> k ` set xs" using in_xs by simp
    show "k m \<le> y" if "y \<in> k ` set xs" for y using that le by auto
  qed
  have "filter (\<lambda>e. k e = k m) xs = filter (\<lambda>e. k e = k m) (sort_key k xs)"
    by (rule sort_key_stable [symmetric])
  also have "\<dots> = m # filter (\<lambda>e. k e = k m) rest"
    by (simp add: split)
  finally show "find (\<lambda>e. k e = k m) xs = Some m"
    by (rule filter_Cons_find)
qed

text \<open>
  C8. For a bundle whose forecast is a non-empty array of points with valid dates, the
  next forecast is a point of the array with the least time of all (whatever the order
  of the array), and it is the first point of the array, in the order given, that has
  this time.
\<close>

theorem nextForecast_earliest:
  assumes "opt_prop bundle ''forecast'' = JArr fcArr"
    and "fcArr \<noteq> []"
    and "\<forall>e \<in> set fcArr. \<not> is_nullish e \<and> D (get_prop e ''date'') \<noteq> None"
  shows "\<exists>p. nextForecast D bundle = Inr p \<and> p \<in> set fcArr \<and>
             raw_time D p = Min (raw_time D ` set fcArr) \<and>
             find (\<lambda>e. raw_time D e = raw_time D p) fcArr = Some p"
proof -
  let ?m = "hd (sort_key (raw_time D) fcArr)"
  from assms(2) have "sort_key (raw_time D) fcArr \<noteq> []"
    by (metis length_sort length_0_conv)
  then have "(case sort_key (raw_time D) fcArr of [] \<Rightarrow> JUndefined | p # ps \<Rightarrow> p) = ?m"
    by (cases "sort_key (raw_time D) fcArr") auto
  with assms(1,2) Array_sortE_rawByDate [OF assms(3)]
  have "nextForecast D bundle = Inr ?m"
    by (simp add: nextForecast_def nullish_or_def is_nullish_def)
  with hd_sort_key [OF assms(2), of "raw_time D"] show ?thesis by blast
qed

theorem nextForecast_earliest_witness:
  "opt_prop (JObj [(''forecast'',
       JArr [JObj [(''date'', JStr ''2024-03-05''), (''hours'', JNum (Finite 3))],
             JObj [(''date'', JStr ''2024-03-01''), (''hours'', JNum (Finite 2))],
             JObj [(''date'', JStr ''2024-03-01''), (''hours'', JNum (Finite 7))]])]) ''forecast''
     = JArr [JObj [(''date'', JStr ''2024-03-05''), (''hours'', JNum (Finite 3))],
             JObj [(''date'', JStr ''2024-03-01''), (''hours'', JNum (Finite 2))],
             JObj [(''date'', JStr ''2024-03-01''), (''hours'', JNum (Finite 7))]] \<and>
   example_Date (JStr ''2024-03-05'') = Some 1709596800000 \<and>
   example_Date (JStr ''2024-03-01'') = Some 1709251200000 \<and>
   nextForecast example_Date (JObj [(''forecast'',
       JArr [JObj [(''date'', JStr ''2024-03-05''), (''hours'', JNum (Finite 3))],
             JObj [(''date'', JStr ''2024-03-01''), (''hours'', JNum (Finite 2))],
             JObj [(''date'', JStr ''2024-03-01''), (''hours'', JNum (Finite 7))]])])
     = Inr (JObj [(''date'', JStr ''2024-03-01''), (''hours'', JNum (Finite 2))]) \<and>
   (\<exists>p. nextForecast example_Date (JObj [(''forecast'',
       JArr [JObj [(''date'', JStr ''2024-03-05''), (''hours'', JNum (Finite 3))],
             JObj [(''date'', JStr ''2024-03-01''), (''hours'', JNum (Finite 2))],
             JObj [(''date'', JStr ''2024-03-01''), (''hours'', JNum (Finite 7))]])]) = Inr p \<and>
        raw_time example_Date p = 1709251200000)"
proof -
  let ?a = "JObj [(''date'', JStr ''2024-03-05''), (''hours'', JNum (Finite 3))]"
  let ?b = "JObj [(''date'', JStr ''2024-03-01''), (''hours'', JNum (Finite 2))]"
  let ?c = "JObj [(''date'', JStr ''2024-03-01''), (''hours'', JNum (Finite 7))]"
  let ?fc = "JObj [(''forecast'', JArr [?a, ?b, ?c])]"
  have arr: "opt_prop ?fc ''forecast'' = JArr [?a, ?b, ?c]"
    by (simp add: opt_prop_def is_nullish_def)
  have ne: "[?a, ?b, ?c] \<noteq> []"
    by simp
  have d5: "example_Date (JStr ''2024-03-05'') = Some 1709596800000"
    and d1: "example_Date (JStr ''2024-03-01'') = Some 1709251200000"
    by (simp_all add: example_Date_def)
  have valid: "\<forall>e \<in> set [?a, ?b, ?c]. \<not> is_nullish e \<and> example_Date (get_prop e ''date'') \<noteq> None"
    by (simp add: is_nullish_def d5 d1)
  have val: "nextForecast example_Date ?fc = Inr ?b"
    by code_simp
  from nextForecast_earliest [OF arr ne valid] val
  have "\<exists>p. nextForecast example_Date ?fc = Inr p \<and> raw_time example_Date p = 1709251200000"
    by (simp add: raw_time_def time_of_def d1)
  with arr d5 d1 val show ?thesis by blast
qed

section \<open>The caller's array\<close>

text \<open>
  C9. Computing the next forecast leaves the array of the bundle as it was, elements
  and order: the sort works on the copy that the spread allocates. No array that was in
  the store before is changed, and the value computed is that of \<open>nextForecast\<close>.
\<close>

theorem nextForecast_store_frame:
  assumes "a < length \<sigma>"
  shows "snd (nextForecast_store D \<sigma> (ArrayAt a)) ! a = \<sigma> ! a \<and>
         take (length \<sigma>) (snd (nextForecast_store D \<sigma> (ArrayAt a))) = \<sigma> \<and>
         fst (nextForecast_store D \<sigma> (ArrayAt a)) =
           nextForecast D (JObj [(''forecast'', JArr (\<sigma> ! a))])"
proof (cases "length (\<sigma> ! a) = 0")
  case True
  then show ?thesis
    by (simp add: nextForecast_store_def nextForecast_def opt_prop_def nullish_or_def
        is_nullish_def)
next
  case False
  show ?thesis
  proof (cases "Array_sort_values (rawByDate D) (\<sigma> ! a)")
    case (Inl e)
    with False assms show ?thesis
      by (simp add: nextForecast_store_def spread_def nextForecast_def opt_prop_def
          nullish_or_def is_nullish_def nth_append)
  next
    case (Inr ys)
    with False assms show ?thesis
      by (simp add: nextForecast_store_def spread_def nextForecast_def opt_prop_def
          nullish_or_def is_nullish_def nth_append)
  qed
qed

theorem nextForecast_store_frame_witness:
  "(0 :: nat) < length [[JObj [(''date'', JStr ''2024-03-05'')], JObj [(''date'', JStr ''2024-03-01'')]]] \<and>
   nextForecast_store example_Date
     [[JObj [(''date'', JStr ''2024-03-05'')], JObj [(''date'', JStr ''2024-03-01'')]]] (ArrayAt 0)
   = (Inr (JObj [(''date'', JStr ''2024-03-01'')]),
      [[JObj [(''date'', JStr ''2024-03-05'')], JObj [(''date'', JStr ''2024-03-01'')]],
       [JObj [(''date'', JStr ''2024-03-01'')], JObj [(''date'', JStr ''2024-03-05'')]]]) \<and>
   snd (nextForecast_store example_Date
     [[JObj [(''date'', JStr ''2024-03-05'')], JObj [(''date'', JStr ''2024-03-01'')]]] (ArrayAt 0)) ! 0
   = [JObj [(''date'', JStr ''2024-03-05'')], JObj [(''date'', JStr ''2024-03-01'')]]"
proof -
  let ?\<sigma> = "[[JObj [(''date'', JStr ''2024-03-05'')], JObj [(''date'', JStr ''2024-03-01'')]]]"
  have len: "(0 :: nat) < length ?\<sigma>"
    by simp
  have val: "nextForecast_store example_Date ?\<sigma> (ArrayAt 0)
   = (Inr (JObj [(''date'', JStr ''2024-03-01'')]),
      [[JObj [(''date'', JStr ''2024-03-05'')], JObj [(''date'', JStr ''2024-03-01'')]],
       [JObj [(''date'', JStr ''2024-03-01'')], JObj [(''date'', JStr ''2024-03-05'')]]])"
    by code_simp
  from nextForecast_store_frame [OF len, of example_Date] len val
  show ?thesis by simp
qed

section \<open>Failing sources\<close>

text \<open>The two normalisations return exactly on the values that can be mapped.\<close>

lemma mapE_returns:
  assumes "\<And>x. (\<exists>y. f x = Inr y) = P x"
  shows "(\<exists>ys. mapE f xs = Inr ys) = list_all P xs"
proof (induction xs)
  case Nil
  then show ?case by simp
next
  case (Cons x xs)
  show ?case
  proof (cases "f x")
    case (Inl e)
    with assms [of x] show ?thesis by auto
  next
    case (Inr y)
    with assms [of x] have "P x" by auto
    with Inr Cons.IH show ?thesis
      by (cases "mapE f xs") auto
  qed
qed

lemma historyPoint_returns: "(\<exists>p. historyPoint S entry = Inr p) = (\<not> is_nullish entry)"
  by (auto simp: historyPoint_def dot_def)

lemma forecastPoint_returns: "(\<exists>q. forecastPoint S f = Inr q) = (\<not> is_nullish f)"
  by (auto simp: forecastPoint_def dot_def)

lemma Array_map_returns:
  assumes "\<And>x. (\<exists>y. f x = Inr y) = (\<not> is_nullish x)"
  shows "(\<exists>ys. Array_map f (nullish_or v (JArr [])) = Inr ys) = mappable v"
proof (cases "nullish_or v (JArr [])")
  case (JArr xs)
  with mapE_returns [of f "\<lambda>x. \<not> is_nullish x" xs, OF assms] show ?thesis
    by (simp add: Array_map_def mappable_def)
qed (simp_all add: Array_map_def mappable_def)

lemma historyData_throws: "\<not> mappable v \<Longrightarrow> historyData D S v = Inl TypeError"
proof -
  assume "\<not> mappable v"
  then have "\<nexists>ps. Array_map (historyPoint S) (nullish_or v (JArr [])) = Inr ps"
    by (simp add: Array_map_returns [of "historyPoint S", OF historyPoint_returns])
  then obtain e where "Array_map (historyPoint S) (nullish_or v (JArr [])) = Inl e"
    by (cases "Array_map (historyPoint S) (nullish_or v (JArr []))") auto
  then show ?thesis
    by (cases e) (simp add: historyData_def)
qed

lemma forecastPoints_throws: "\<not> mappable v \<Longrightarrow> forecastPoints S v = Inl TypeError"
proof -
  assume "\<not> mappable v"
  then have "\<nexists>qs. forecastPoints S v = Inr qs"
    unfolding forecastPoints_def
    by (simp add: Array_map_returns [of "forecastPoint S", OF forecastPoint_returns])
  then obtain e where "forecastPoints S v = Inl e"
    by (cases "forecastPoints S v") auto
  then show ?thesis by (cases e) simp
qed

lemma historyData_nullish: "is_nullish v \<Longrightarrow> historyData D S v = Inr []"
  by (simp add: historyData_def nullish_or_def Array_map_def Array_sort_Nil)

lemma forecastPoints_nullish: "is_nullish v \<Longrightarrow> forecastPoints S v = Inr []"
  by (simp add: forecastPoints_def nullish_or_def Array_map_def)

text \<open>
  C5, as the code has it. A rejected request, whichever it is, ends the load with the
  state it started from: nothing is replaced and nothing is reconciled, only the loading
  flag is cleared. When the three requests resolve, the statistics and the forecast are
  set, each to its default exactly when its response carries no data (the response, or
  its \<^verbatim>\<open>data\<close>, is \<^verbatim>\<open>null\<close> or \<^verbatim>\<open>undefined\<close>). The series is then rebuilt from the
  logs and the forecast points, an absent list counting as empty, unless normalising
  one of the two lists throws; it throws on a list that is not an array and on a list
  with a \<^verbatim>\<open>null\<close> entry, and the series then keeps the value it had.
\<close>

theorem loadData_failing_source:
  "(statsRes = Rejected \<or> forecastRes = Rejected \<or> logsRes = Rejected \<longrightarrow>
      loadData D S st statsRes forecastRes logsRes = st\<lparr>loading := False\<rparr>) \<and>
   (historyData D S (opt_prop lr ''data'') = Inr h \<and>
    forecastPoints S (opt_prop (opt_prop fr ''data'') ''forecast'') = Inr f \<longrightarrow>
      loadData D S st (Fulfilled sr) (Fulfilled fr) (Fulfilled lr) =
        st\<lparr>stats := (if is_nullish (opt_prop sr ''data'') then default_stats
                      else opt_prop sr ''data''),
           forecast := (if is_nullish (opt_prop fr ''data'') then JNull else opt_prop fr ''data''),
           logs := chartData D h f, loading := False\<rparr>) \<and>
   (historyData D S (opt_prop lr ''data'') = Inl e \<or>
    forecastPoints S (opt_prop (opt_prop fr ''data'') ''forecast'') = Inl e \<longrightarrow>
      loadData D S st (Fulfilled sr) (Fulfilled fr) (Fulfilled lr) =
        st\<lparr>stats := (if is_nullish (opt_prop sr ''data'') then default_stats
                      else opt_prop sr ''data''),
           forecast := (if is_nullish (opt_prop fr ''data'') then JNull else opt_prop fr ''data''),
           loading := False\<rparr>) \<and>
   (is_nullish v \<longrightarrow> historyData D S v = Inr [] \<and> forecastPoints S v = Inr []) \<and>
   (\<not> mappable v \<longrightarrow> historyData D S v = Inl TypeError \<and> forecastPoints S v = Inl TypeError)"
proof (intro conjI impI)
  assume "statsRes = Rejected \<or> forecastRes = Rejected \<or> logsRes = Rejected"
  then show "loadData D S st statsRes forecastRes logsRes = st\<lparr>loading := False\<rparr>"
    by (auto simp: loadData_def split: settled.splits)
next
  assume "historyData D S (opt_prop lr ''data'') = Inr h \<and>
    forecastPoints S (opt_prop (opt_prop fr ''data'') ''forecast'') = Inr f"
  then show "loadData D S st (Fulfilled sr) (Fulfilled fr) (Fulfilled lr) =
        st\<lparr>stats := (if is_nullish (opt_prop sr ''data'') then default_stats
                      else opt_prop sr ''data''),
           forecast := (if is_nullish (opt_prop fr ''data'') then JNull else opt_prop fr ''data''),
           logs := chartData D h f, loading := False\<rparr>"
    by (simp add: loadData_def nullish_or_def)
next
  assume "historyData D S (opt_prop lr ''data'') = Inl e \<or>
    forecastPoints S (opt_prop (opt_prop fr ''data'') ''forecast'') = Inl e"
  then show "loadData D S st (Fulfilled sr) (Fulfilled fr) (Fulfilled lr) =
        st\<lparr>stats := (if is_nullish (opt_prop sr ''data'') then default_stats
                      else opt_prop sr ''data''),
           forecast := (if is_nullish (opt_prop fr ''data'') then JNull else opt_prop fr ''data''),
           loading := False\<rparr>"
    by (cases "historyData D S (opt_prop lr ''data'')")
      (auto simp: loadData_def nullish_or_def)
next
  assume "is_nullish v"
  then show "historyData D S v = Inr []" and "forecastPoints S v = Inr []"
    by (simp_all add: historyData_nullish forecastPoints_nullish)
next
  assume "\<not> mappable v"
  then show "historyData D S v = Inl TypeError" and "forecastPoints S v = Inl TypeError"
    by (simp_all add: historyData_throws forecastPoints_throws)
qed

text \<open>The example data, normalised and merged.\<close>

lemma example_historyData:
  "historyData example_Date example_Number (opt_prop (response (JArr [example_entry])) ''data'')
     = Inr [example_history_point]"
  by (simp add: historyData_def Array_map_def nullish_or_def is_nullish_def historyPoint_def
      dot_def or_num_def example_Number_def Array_sort_single opt_prop_def response_def
      example_entry_def example_history_point_def)

lemma example_forecastPoints:
  "forecastPoints example_Number (opt_prop (opt_prop (response example_bundle) ''data'') ''forecast'')
     = Inr [example_forecast_point]"
  by (simp add: forecastPoints_def Array_map_def nullish_or_def is_nullish_def
      forecastPoint_def dot_def opt_prop_def or_num_def response_def example_bundle_def
      example_forecast_point_def)

lemma example_chartData:
  "chartData example_Date [example_history_point] [example_forecast_point]
     = [example_history_point, example_forecast_point]"
  "chartData example_Date [example_history_point] [] = [example_history_point]"
  "chartData example_Date [] [example_forecast_point] = [example_forecast_point]"
  "chartData example_Date [] [] = []"
  by code_simp+

lemma example_data:
  "opt_prop (JObj []) ''data'' = JUndefined"
  "opt_prop JUndefined ''forecast'' = JUndefined"
  "opt_prop (response body) ''data'' = body"
  "is_nullish JUndefined"
  "\<not> is_nullish example_bundle"
  "\<not> is_nullish example_stats"
  "\<not> is_nullish (JArr xs)"
  "\<not> is_nullish (JObj kvs)"
  by (simp_all add: opt_prop_def is_nullish_def response_def example_bundle_def
      example_stats_def)

lemma example_mappable:
  "mappable JUndefined"
  "mappable (JArr [example_entry])"
  "mappable (opt_prop example_bundle ''forecast'')"
  "\<not> mappable (JArr [JNull])"
  by (simp_all add: mappable_def nullish_or_def is_nullish_def example_entry_def
      example_bundle_def opt_prop_def)

theorem loadData_failing_source_witness:
  "loadData example_Date example_Number initial_state
     Rejected (Fulfilled (response example_bundle)) (Fulfilled (response (JArr [example_entry])))
     = initial_state\<lparr>loading := False\<rparr> \<and>
   loadData example_Date example_Number initial_state
     (Fulfilled (JObj [])) (Fulfilled (response example_bundle))
     (Fulfilled (response (JArr [example_entry])))
     = initial_state\<lparr>stats := default_stats, forecast := example_bundle,
         logs := [example_history_point, example_forecast_point], loading := False\<rparr> \<and>
   loadData example_Date example_Number initial_state
     (Fulfilled (response example_stats)) (Fulfilled (JObj []))
     (Fulfilled (response (JArr [example_entry])))
     = initial_state\<lparr>stats := example_stats, forecast := JNull,
         logs := [example_history_point], loading := False\<rparr> \<and>
   loadData example_Date example_Number initial_state
     (Fulfilled (response example_stats)) (Fulfilled (response example_bundle))
     (Fulfilled (JObj []))
     = initial_state\<lparr>stats := example_stats, forecast := example_bundle,
         logs := [example_forecast_point], loading := False\<rparr> \<and>
   \<not> mappable (JArr [JNull]) \<and>
   forecastPoints example_Number (JArr [JNull]) = Inl TypeError \<and>
   loadData example_Date example_Number initial_state
     (Fulfilled (JObj [])) (Fulfilled (response (JObj [(''forecast'', JArr [JNull])])))
     (Fulfilled (response (JArr [example_entry])))
     = initial_state\<lparr>stats := default_stats, forecast := JObj [(''forecast'', JArr [JNull])],
         loading := False\<rparr>"
proof -
  let ?logs = "response (JArr [example_entry])"
  let ?fore = "response example_bundle"
  let ?stat = "response example_stats"
  let ?bad = "response (JObj [(''forecast'', JArr [JNull])])"
  have absent: "is_nullish JUndefined"
    by (simp add: example_data)
  have none: "historyData example_Date example_Number (opt_prop (JObj []) ''data'') = Inr []"
    "forecastPoints example_Number (opt_prop (opt_prop (JObj []) ''data'') ''forecast'') = Inr []"
    using loadData_failing_source [where D = example_Date and S = example_Number
        and v = JUndefined, THEN conjunct2, THEN conjunct2, THEN conjunct2, THEN conjunct1,
        rule_format, OF absent]
    by (simp_all add: example_data)
  have 1: "loadData example_Date example_Number initial_state Rejected (Fulfilled ?fore)
      (Fulfilled ?logs) = initial_state\<lparr>loading := False\<rparr>"
    by (rule loadData_failing_source [THEN conjunct1, rule_format]) simp
  have "loadData example_Date example_Number initial_state (Fulfilled (JObj []))
      (Fulfilled ?fore) (Fulfilled ?logs)
     = initial_state\<lparr>stats := (if is_nullish (opt_prop (JObj []) ''data'') then default_stats
                             else opt_prop (JObj []) ''data''),
         forecast := (if is_nullish (opt_prop ?fore ''data'') then JNull
                      else opt_prop ?fore ''data''),
         logs := chartData example_Date [example_history_point] [example_forecast_point],
         loading := False\<rparr>"
    by (rule loadData_failing_source [THEN conjunct2, THEN conjunct1, rule_format])
      (simp add: example_historyData example_forecastPoints)
  then have 2: "loadData example_Date example_Number initial_state (Fulfilled (JObj []))
      (Fulfilled ?fore) (Fulfilled ?logs)
     = initial_state\<lparr>stats := default_stats, forecast := example_bundle,
         logs := [example_history_point, example_forecast_point], loading := False\<rparr>"
    by (simp add: example_data example_chartData)
  have "loadData example_Date example_Number initial_state (Fulfilled ?stat)
      (Fulfilled (JObj [])) (Fulfilled ?logs)
     = initial_state\<lparr>stats := (if is_nullish (opt_prop ?stat ''data'') then default_stats
                             else opt_prop ?stat ''data''),
         forecast := (if is_nullish (opt_prop (JObj []) ''data'') then JNull
                      else opt_prop (JObj []) ''data''),
         logs := chartData example_Date [example_history_point] [],
         loading := False\<rparr>"
    by (rule loadData_failing_source [THEN conjunct2, THEN conjunct1, rule_format])
      (simp add: example_historyData none)
  then have 3: "loadData example_Date example_Number initial_state (Fulfilled ?stat)
      (Fulfilled (JObj [])) (Fulfilled ?logs)
     = initial_state\<lparr>stats := example_stats, forecast := JNull,
         logs := [example_history_point], loading := False\<rparr>"
    by (simp add: example_data example_chartData)
  have "loadData example_Date example_Number initial_state (Fulfilled ?stat)
      (Fulfilled ?fore) (Fulfilled (JObj []))
     = initial_state\<lparr>stats := (if is_nullish (opt_prop ?stat ''data'') then default_stats
                             else opt_prop ?stat ''data''),
         forecast := (if is_nullish (opt_prop ?fore ''data'') then JNull
                      else opt_prop ?fore ''data''),
         logs := chartData example_Date [] [example_forecast_point],
         loading := False\<rparr>"
    by (rule loadData_failing_source [THEN conjunct2, THEN conjunct1, rule_format])
      (simp add: example_forecastPoints none)
  then have 4: "loadData example_Date example_Number initial_state (Fulfilled ?stat)
      (Fulfilled ?fore) (Fulfilled (JObj []))
     = initial_state\<lparr>stats := example_stats, forecast := example_bundle,
         logs := [example_forecast_point], loading := False\<rparr>"
    by (simp add: example_data example_chartData)
  have bad: "\<not> mappable (JArr [JNull])"
    by (simp add: example_mappable)
  have throws: "forecastPoints example_Number (JArr [JNull]) = Inl TypeError"
    using loadData_failing_source [where D = example_Date and S = example_Number
        and v = "JArr [JNull]", THEN conjunct2, THEN conjunct2, THEN conjunct2, THEN conjunct2,
        rule_format, OF bad]
    by simp
  have list: "opt_prop (opt_prop ?bad ''data'') ''forecast'' = JArr [JNull]"
    by (simp add: response_def opt_prop_def is_nullish_def)
  have "loadData example_Date example_Number initial_state (Fulfilled (JObj []))
      (Fulfilled ?bad) (Fulfilled ?logs)
     = initial_state\<lparr>stats := (if is_nullish (opt_prop (JObj []) ''data'') then default_stats
                             else opt_prop (JObj []) ''data''),
         forecast := (if is_nullish (opt_prop ?bad ''data'') then JNull
                      else opt_prop ?bad ''data''),
         loading := False\<rparr>"
    by (rule loadData_failing_source [where e = TypeError, THEN conjunct2, THEN conjunct2,
          THEN conjunct1, rule_format])
      (simp add: list throws)
  then have 5: "loadData example_Date example_Number initial_state (Fulfilled (JObj []))
      (Fulfilled ?bad) (Fulfilled ?logs)
     = initial_state\<lparr>stats := default_stats, forecast := JObj [(''forecast'', JArr [JNull])],
         loading := False\<rparr>"
    by (simp add: example_data)
  from 1 2 3 4 5 bad throws show ?thesis by blast
qed

text \<open>
  C5 as stated fails. The statistics request is rejected, the two others succeed: the
  series stays empty and the forecast stays \<^verbatim>\<open>null\<close>, where the data of the two
  sources that succeeded gives a series of two points (second line: the same load with
  the statistics request succeeding).
\<close>

theorem loadData_rejected_counterexample:
  "logs (loadData example_Date example_Number initial_state
     Rejected (Fulfilled (response example_bundle)) (Fulfilled (response (JArr [example_entry]))))
     = [] \<and>
   forecast (loadData example_Date example_Number initial_state
     Rejected (Fulfilled (response example_bundle)) (Fulfilled (response (JArr [example_entry]))))
     = JNull \<and>
   logs (loadData example_Date example_Number initial_state
     (Fulfilled (response example_stats)) (Fulfilled (response example_bundle))
     (Fulfilled (response (JArr [example_entry]))))
     = [example_history_point, example_forecast_point] \<and>
   [example_history_point, example_forecast_point] \<noteq> []"
  by (simp add: loadData_def initial_state_def example_historyData example_forecastPoints
      example_chartData)

end
